theory Spec2Isabelle
  imports Main "HOL-Library.AList"
begin

section \<open>JavaScript values the renderer distinguishes\<close>

text \<open>
  A property of a JavaScript object is \<open>undefined\<close> (absent), \<open>null\<close> or a value.
  The renderer tests \<open>x.id != null\<close> (neither null nor undefined) and
  \<open>x.id === null\<close> (null only), so the three cases are kept apart.
\<close>

datatype 'a nullable = Undefined | Null | Obj 'a

text \<open>
  Exceptions are values. A dereference of \<open>undefined\<close> or \<open>null\<close> is a
  \<open>TypeError\<close>. Unbounded recursion is modelled as a computation that does not
  return: the outer \<open>option\<close> of \<open>resolveBaseStyle\<close> and \<open>processStyles\<close>.
\<close>

datatype error = TypeError

text \<open>
  \<open>Record<string, string>\<close>: an association list in insertion order. A property read
  is \<open>map_of\<close>, a property write is \<open>AList.update\<close> (an existing key keeps its
  place, a new key is appended), \<open>delete\<close> is \<open>AList.delete\<close>.
\<close>

type_synonym css = "(string \<times> string) list"

text \<open>The key a value is coerced to when it indexes a plain object.\<close>

fun propKey :: "string nullable \<Rightarrow> string" where
  "propKey Undefined = ''undefined''"
| "propKey Null = ''null''"
| "propKey (Obj s) = s"

text \<open>
  A plain object (\<open>{}\<close> or an object literal) inherits the members of
  \<open>Object.prototype\<close>. A read \<open>obj[key]\<close> with one of these names, on an object with no
  own property of that name, finds a built-in function, and under \<open>__proto__\<close> the
  prototype of the object; both are truthy.
\<close>

definition objectPrototypeKeys :: "string list" where
  "objectPrototypeKeys =
     [''constructor'', ''__defineGetter__'', ''__defineSetter__'', ''hasOwnProperty'',
      ''__lookupGetter__'', ''__lookupSetter__'', ''isPrototypeOf'', ''propertyIsEnumerable'',
      ''toString'', ''valueOf'', ''__proto__'', ''toLocaleString'']"

section \<open>The style sheet\<close>

record IDomSubStyle =
  target :: string
  values_sub :: css

record ParagraphProps =
  pageBreakBefore :: bool

text \<open>
  \<open>IDomStyle\<close> is declared in \<open>./document/style\<close>, which is not among the sources. The
  fields are the properties the renderer reads or writes. \<open>others\<close> lists the further own
  properties of the object (its name, its target kind, ...), each with the truthiness of
  its value: the renderer never names them, but a read of the styles map can reach them
  when a style has become the prototype of the map.
\<close>

record IDomStyle =
  id_style :: "string nullable"
  basedOn :: "string nullable"
  isDefault :: bool
  styles :: "IDomSubStyle list"
  basedOnResolved :: "bool option"
  cssName :: "string option"
  paragraphProps :: "ParagraphProps option"
  others :: "(string \<times> bool) list"

text \<open>The theme part, as far as \<open>replaceAsciiTheme\<close> reads it.\<close>

record DmlFontInfo =
  latinTypeface :: "string option"

record DmlFontScheme =
  majorFont :: "DmlFontInfo option"
  minorFont :: "DmlFontInfo option"

record DmlTheme =
  fontScheme :: "DmlFontScheme option"

record ThemePart =
  theme :: "DmlTheme option"

text \<open>
  Style objects are shared between the \<open>styles\<close> array and \<open>stylesMap\<close>, and are
  mutated in place. The store keeps the objects in \<open>heap\<close> (the address of a style is its
  index in the \<open>styles\<close> array). \<open>stylesMap\<close> holds the own properties of the map, a key
  to an address. The map is created as \<open>{}\<close>, so its prototype is \<open>Object.prototype\<close>
  (\<open>prototype = None\<close>) until an assignment under the key \<open>__proto__\<close> makes a style its
  prototype.
\<close>

record store =
  heap :: "IDomStyle list"
  stylesMap :: "string \<Rightarrow> nat option"
  prototype :: "nat option"

text \<open>JavaScript truthiness of a string-valued property.\<close>

fun truthy :: "string nullable \<Rightarrow> bool" where
  "truthy (Obj s) = (s \<noteq> [])"
| "truthy _ = False"

subsection \<open>The styles map\<close>

text \<open>
  What a read \<open>stylesMap[key]\<close> finds: nothing or a falsy value, a style of the sheet, or
  a truthy value that is no style (a built-in of \<open>Object.prototype\<close>, or the value of a
  property of the style that is the prototype of the map).
\<close>

datatype member = Absent | StyleAt nat | Other

text \<open>The own property \<open>k\<close> of a style object holds a truthy value.\<close>

definition styleMember :: "IDomStyle \<Rightarrow> string \<Rightarrow> bool option" where
  "styleMember s k =
     (if k = ''id'' then Some (truthy (id_style s))
      else if k = ''basedOn'' then Some (truthy (basedOn s))
      else if k = ''isDefault'' then Some (isDefault s)
      else if k = ''styles'' then Some True
      else if k = ''basedOnResolved'' then Some (basedOnResolved s = Some True)
      else if k = ''cssName'' then Some (cssName s \<noteq> None \<and> cssName s \<noteq> Some [])
      else if k = ''paragraphProps'' then Some (paragraphProps s \<noteq> None)
      else map_of (others s) k)"

text \<open>
  The read \<open>stylesMap[key]\<close>: an own property first, then the prototype chain. With a
  style as prototype, \<open>__proto__\<close> reads that style, its own properties come next and
  \<open>Object.prototype\<close> last.
\<close>

definition lookupStyle :: "store \<Rightarrow> string \<Rightarrow> member" where
  "lookupStyle st k =
     (case stylesMap st k of
        Some a \<Rightarrow> StyleAt a
      | None \<Rightarrow>
          (case prototype st of
             None \<Rightarrow> if k \<in> set objectPrototypeKeys then Other else Absent
           | Some p \<Rightarrow>
               if k = ''__proto__'' then StyleAt p
               else (case styleMember (heap st ! p) k of
                       Some t \<Rightarrow> if t then Other else Absent
                     | None \<Rightarrow> if k \<in> set objectPrototypeKeys then Other else Absent)))"

text \<open>
  The assignment \<open>stylesMap[key] = style\<close>: under \<open>__proto__\<close> it sets the prototype of
  the map and creates no property; under any other key it creates or overwrites an own
  property.
\<close>

definition setStyle :: "store \<Rightarrow> string \<Rightarrow> nat \<Rightarrow> store" where
  "setStyle st k a =
     (if k = ''__proto__'' then st\<lparr>prototype := Some a\<rparr>
      else st\<lparr>stylesMap := (stylesMap st)(k \<mapsto> a)\<rparr>)"

subsection \<open>copyStyleProperties\<close>

text \<open>
  The assignment \<open>output[key] = value\<close> of a string to a plain object: under the key
  \<open>__proto__\<close>, on an object with no own property of that name, it reaches the setter of
  \<open>Object.prototype\<close>, which ignores a string, and the object stays as it is.
\<close>

definition setProp :: "string \<Rightarrow> string \<Rightarrow> css \<Rightarrow> css" where
  "setProp key v obj =
     (if key = ''__proto__'' \<and> map_of obj key = None then obj else AList.update key v obj)"

text \<open>
  The loop \<open>for (var key of attrs)\<close>. The tests are the method calls
  \<open>input.hasOwnProperty(key)\<close> and \<open>output.hasOwnProperty(key)\<close>: on an object with an own
  property named \<open>hasOwnProperty\<close> the call finds that property, a string, and throws.
  The second call is not made when \<open>overideExistingEntries\<close> is set.
\<close>

fun copyProps :: "string list \<Rightarrow> css \<Rightarrow> css \<Rightarrow> bool \<Rightarrow> error + css" where
  "copyProps [] input output overideExistingEntries = Inr output"
| "copyProps (key # attrs) input output overideExistingEntries =
     (if map_of input ''hasOwnProperty'' \<noteq> None then Inl TypeError
      else (case map_of input key of
              None \<Rightarrow> copyProps attrs input output overideExistingEntries
            | Some v \<Rightarrow>
                if overideExistingEntries
                then copyProps attrs input (setProp key v output) overideExistingEntries
                else if map_of output ''hasOwnProperty'' \<noteq> None then Inl TypeError
                else if map_of output key = None
                then copyProps attrs input (setProp key v output) overideExistingEntries
                else copyProps attrs input output overideExistingEntries))"

definition copyStyleProperties ::
  "css option \<Rightarrow> css option \<Rightarrow> string list option \<Rightarrow> bool \<Rightarrow> error + css option" where
  "copyStyleProperties input output attrs overideExistingEntries =
     (case input of
        None \<Rightarrow> Inr output
      | Some i \<Rightarrow>
          map_sum (\<lambda>e. e) Some
            (copyProps (case attrs of None \<Rightarrow> map fst i | Some a \<Rightarrow> a) i
               (case output of None \<Rightarrow> [] | Some out \<Rightarrow> out)
               overideExistingEntries))"

subsection \<open>copyStyle\<close>

text \<open>
  Modelled from the spec: \<open>clone\<close> is imported from \<open>./utils\<close>, which is not among the
  sources. The spec calls it a value-copy ("the child inherits the parent's block by
  value-copy"); on values a copy is the value itself, and \<open>undefined\<close> and \<open>null\<close> are
  copied to themselves.
\<close>

definition clone :: "'a \<Rightarrow> 'a" where
  "clone x = x"

text \<open>
  One iteration of the loop of \<open>copyStyle\<close>: the first block of the target with the same
  target kind (\<open>filter(...)[0]\<close>) receives the properties, and when there is none a copy
  of the block is pushed.
\<close>

fun copyBlock ::
  "IDomSubStyle \<Rightarrow> bool \<Rightarrow> IDomSubStyle list \<Rightarrow> error + IDomSubStyle list" where
  "copyBlock b ov [] = Inr [clone b]"
| "copyBlock b ov (t # ts) =
     (if target t = target b
      then (case copyStyleProperties (Some (values_sub b)) (Some (values_sub t)) None ov of
              Inl e \<Rightarrow> Inl e
            | Inr out \<Rightarrow>
                Inr (t\<lparr>values_sub := (case out of Some c \<Rightarrow> c | None \<Rightarrow> [])\<rparr> # ts))
      else (case copyBlock b ov ts of Inl e \<Rightarrow> Inl e | Inr ts' \<Rightarrow> Inr (t # ts')))"

fun copyBlocks ::
  "IDomSubStyle list \<Rightarrow> bool \<Rightarrow> IDomSubStyle list \<Rightarrow> error + IDomSubStyle list" where
  "copyBlocks [] ov ts = Inr ts"
| "copyBlocks (b # bs) ov ts =
     (case copyBlock b ov ts of Inl e \<Rightarrow> Inl e | Inr ts' \<Rightarrow> copyBlocks bs ov ts')"

definition copyStyle :: "IDomStyle \<Rightarrow> IDomStyle \<Rightarrow> bool \<Rightarrow> error + IDomStyle" where
  "copyStyle base tgt overideExistingEntries =
     map_sum (\<lambda>e. e) (\<lambda>bs. tgt\<lparr>styles := bs\<rparr>)
       (copyBlocks (styles base) overideExistingEntries (styles tgt))"

subsection \<open>replaceAsciiTheme\<close>

text \<open>
  The body of the loop over \<open>style.styles\<close>, for one sub-style. \<open>minorLatinFont\<close> is
  \<open>translatedFonts.minorFont.latinTypeface\<close> and \<open>majorLatin\<close> is
  \<open>translatedFonts.majorFont?.latinTypeface\<close>.
\<close>

definition replaceAsciiThemeSub ::
  "string option \<Rightarrow> string option \<Rightarrow> bool \<Rightarrow> IDomSubStyle \<Rightarrow> IDomSubStyle" where
  "replaceAsciiThemeSub minorLatinFont majorLatin addDefault substyle =
     (let hasMinorLatin = (minorLatinFont \<noteq> Some [] \<and> minorLatinFont \<noteq> None);
          val = map_of (values_sub substyle) ''asciiTheme'';
          hasFontFamily = (map_of (values_sub substyle) ''font-family'' \<noteq> None)
      in if val = None \<or> val = Some [] then
           (if addDefault \<and> \<not> hasFontFamily \<and> hasMinorLatin
            then substyle\<lparr>values_sub :=
                   AList.update ''font-family'' (the minorLatinFont) (values_sub substyle)\<rparr>
            else substyle)
         else
           (let deleted = AList.delete ''asciiTheme'' (values_sub substyle)
            in if hasFontFamily then substyle\<lparr>values_sub := deleted\<rparr>
               else if val = Some ''minorHAnsi'' \<and> hasMinorLatin
               then substyle\<lparr>values_sub :=
                      AList.update ''font-family'' (the minorLatinFont) deleted\<rparr>
               else if val = Some ''majorHAnsi'' \<and> majorLatin \<noteq> None \<and> majorLatin \<noteq> Some []
               then substyle\<lparr>values_sub :=
                      AList.update ''font-family'' (the majorLatin) deleted\<rparr>
               else substyle\<lparr>values_sub := deleted\<rparr>))"

text \<open>
  The dereferences \<open>themePart.theme.fontScheme\<close> and
  \<open>translatedFonts.minorFont.latinTypeface\<close> come before the loop and are not guarded.
\<close>

definition replaceAsciiTheme ::
  "ThemePart option \<Rightarrow> bool \<Rightarrow> IDomStyle \<Rightarrow> error + IDomStyle" where
  "replaceAsciiTheme themePart addDefault style =
     (case themePart of
        None \<Rightarrow> Inl TypeError
      | Some tp \<Rightarrow>
          (case theme tp of
             None \<Rightarrow> Inl TypeError
           | Some th \<Rightarrow>
               (case fontScheme th of
                  None \<Rightarrow> Inl TypeError
                | Some translatedFonts \<Rightarrow>
                    (case minorFont translatedFonts of
                       None \<Rightarrow> Inl TypeError
                     | Some mf \<Rightarrow>
                         Inr (style\<lparr>styles :=
                                map (replaceAsciiThemeSub (latinTypeface mf)
                                       (case majorFont translatedFonts of
                                          None \<Rightarrow> None
                                        | Some jf \<Rightarrow> latinTypeface jf)
                                       addDefault)
                                  (styles style)\<rparr>)))))"

subsection \<open>resolveBaseStyle\<close>

text \<open>
  The tail of \<open>resolveBaseStyle\<close>, after the base style is known: the base at address
  \<open>b\<close> is copied into the style at address \<open>a\<close>, the style is marked resolved and is
  assigned to the map under its own id.
\<close>

definition finishResolve :: "store \<Rightarrow> nat \<Rightarrow> nat \<Rightarrow> error + store" where
  "finishResolve st a b =
     (case copyStyle (heap st ! b) (heap st ! a) False of
        Inl e \<Rightarrow> Inl e
      | Inr copied \<Rightarrow>
          (let style = copied\<lparr>basedOnResolved := Some True\<rparr>
           in Inr (setStyle (st\<lparr>heap := (heap st)[a := style]\<rparr>) (propKey (id_style style)) a)))"

text \<open>
  The argument \<open>style\<close> of \<open>resolveBaseStyle\<close> is a style of the sheet (\<open>Some a\<close>) or, when
  the map gave a value that is no style, that value (\<open>None\<close>): it has no \<open>basedOn\<close> and no
  \<open>styles\<close>.
\<close>

definition basedOnOf :: "store \<Rightarrow> nat option \<Rightarrow> string nullable" where
  "basedOnOf st style = (case style of Some a \<Rightarrow> basedOn (heap st ! a) | None \<Rightarrow> Undefined)"

text \<open>
  \<open>copyStyle(baseStyle, style)\<close> and the two assignments after it, for a base that is a
  style. When \<open>style\<close> is no style, \<open>target.styles.filter\<close> throws at the first block of
  the base; with no block nothing is copied and the call returns to a caller that throws
  (see below), so what the two assignments leave is never read.
\<close>

definition copyInto :: "store \<Rightarrow> nat option \<Rightarrow> nat \<Rightarrow> error + store" where
  "copyInto st style b =
     (case style of
        Some a \<Rightarrow> finishResolve st a b
      | None \<Rightarrow> if styles (heap st ! b) = [] then Inr st else Inl TypeError)"

text \<open>
  \<open>resolveBaseStyle\<close> calls itself on the base style before anything is written, so
  nothing bounds the recursion: the result \<open>None\<close> stands for a call that never returns
  (in JavaScript, a stack that overflows). A base that is no style has no
  \<open>basedOnResolved\<close>, so the call recurses on it, and when that returns
  \<open>copyStyle\<close> throws on \<open>base.styles\<close>, which is \<open>undefined\<close>.
\<close>

partial_function (option) resolveBaseStyle ::
  "store \<Rightarrow> nat option \<Rightarrow> (error + store) option" where
  "resolveBaseStyle st style =
     (case lookupStyle st (propKey (basedOnOf st style)) of
        Absent \<Rightarrow> Some (Inr st)
      | Other \<Rightarrow> Option.bind (resolveBaseStyle st None) (\<lambda>r. Some (Inl TypeError))
      | StyleAt b \<Rightarrow>
          if basedOnResolved (heap st ! b) \<noteq> Some True then
            Option.bind (resolveBaseStyle st (Some b)) (\<lambda>r.
              case r of
                Inl e \<Rightarrow> Some (Inl e)
              | Inr st' \<Rightarrow>
                  (case lookupStyle st' (propKey (basedOnOf st' style)) of
                     StyleAt b' \<Rightarrow> Some (copyInto st' style b')
                   | _ \<Rightarrow> Some (Inl TypeError)))
          else Some (copyInto st style b))"

declare resolveBaseStyle.simps [code]

subsection \<open>processStyles\<close>

text \<open>First loop: the styles with an id (\<open>x.id != null\<close>), by address.\<close>

fun indexStyles :: "ThemePart option \<Rightarrow> nat list \<Rightarrow> store \<Rightarrow> error + store" where
  "indexStyles themePart [] st = Inr st"
| "indexStyles themePart (a # as) st =
     (case id_style (heap st ! a) of
        Obj i \<Rightarrow>
          (case replaceAsciiTheme themePart False (heap st ! a) of
             Inl e \<Rightarrow> Inl e
           | Inr s \<Rightarrow>
               indexStyles themePart as
                 (setStyle
                    (st\<lparr>heap := (heap st)[a := s\<lparr>basedOnResolved := Some (\<not> truthy (basedOn s))\<rparr>]\<rparr>)
                    i a))
      | _ \<Rightarrow> indexStyles themePart as st)"

text \<open>Second loop: the styles with a \<open>basedOn\<close> that are not resolved yet.\<close>

fun resolveStyles :: "nat list \<Rightarrow> store \<Rightarrow> (error + store) option" where
  "resolveStyles [] st = Some (Inr st)"
| "resolveStyles (a # as) st =
     (if truthy (basedOn (heap st ! a)) then
        (if basedOnResolved (heap st ! a) = Some True then resolveStyles as st
         else Option.bind (resolveBaseStyle st (Some a)) (\<lambda>r.
                case r of Inl e \<Rightarrow> Some (Inl e) | Inr st' \<Rightarrow> resolveStyles as st'))
      else resolveStyles as st)"

text \<open>
  \<open>escapeClassName\<close>: \<open>replace(/[ .]+/g, '-')\<close> and \<open>replace(/[&]+/g, 'and')\<close>. A maximal
  run of matching characters is replaced once; \<open>inRun\<close> says that the previous character
  matched.
\<close>

fun replaceRuns :: "(char \<Rightarrow> bool) \<Rightarrow> string \<Rightarrow> bool \<Rightarrow> string \<Rightarrow> string" where
  "replaceRuns p r inRun [] = []"
| "replaceRuns p r inRun (c # cs) =
     (if p c then (if inRun then [] else r) @ replaceRuns p r True cs
      else c # replaceRuns p r False cs)"

fun escapeClassName :: "string nullable \<Rightarrow> string option" where
  "escapeClassName (Obj className) =
     Some (replaceRuns (\<lambda>c. c = CHR ''&'') ''and'' False
             (replaceRuns (\<lambda>c. c = CHR '' '' \<or> c = CHR ''.'') ''-'' False className))"
| "escapeClassName _ = None"

definition processClassName :: "string \<Rightarrow> string option \<Rightarrow> string" where
  "processClassName rootClass className =
     (case className of
        None \<Rightarrow> rootClass
      | Some c \<Rightarrow> if c = [] then rootClass else rootClass @ ''_'' @ c)"

text \<open>Third loop: every style, by address.\<close>

fun nameStyles :: "ThemePart option \<Rightarrow> string \<Rightarrow> nat list \<Rightarrow> store \<Rightarrow> error + store" where
  "nameStyles themePart rootClass [] st = Inr st"
| "nameStyles themePart rootClass (a # as) st =
     (case replaceAsciiTheme themePart True (heap st ! a) of
        Inl e \<Rightarrow> Inl e
      | Inr s \<Rightarrow>
          nameStyles themePart rootClass as
            (st\<lparr>heap := (heap st)
                   [a := s\<lparr>cssName := Some (processClassName rootClass
                                             (escapeClassName (id_style s)))\<rparr>]\<rparr>))"

text \<open>
  The aggregated default style: \<open>clone(defaultStyles[0])\<close> with its blocks emptied, then
  every default style copied into it. With no default style \<open>defaultStyles[0]\<close> is
  \<open>undefined\<close> and the assignment \<open>defaultOverride.styles = []\<close> throws.
\<close>

fun mergeDefaults :: "IDomStyle list \<Rightarrow> IDomStyle \<Rightarrow> error + IDomStyle" where
  "mergeDefaults [] defaultOverride = Inr defaultOverride"
| "mergeDefaults (defaultStyle # ds) defaultOverride =
     (case copyStyle defaultStyle defaultOverride False of
        Inl e \<Rightarrow> Inl e
      | Inr defaultOverride' \<Rightarrow> mergeDefaults ds defaultOverride')"

definition defaultOverrideOf :: "IDomStyle list \<Rightarrow> error + IDomStyle" where
  "defaultOverrideOf sts =
     (case filter isDefault sts of
        [] \<Rightarrow> Inl TypeError
      | d # ds \<Rightarrow> mergeDefaults (d # ds) ((clone d)\<lparr>styles := []\<rparr>))"

text \<open>Last loop: the aggregated default is copied, overriding, into the styles with id null.\<close>

definition applyDefault :: "IDomStyle \<Rightarrow> IDomStyle \<Rightarrow> error + IDomStyle" where
  "applyDefault defaultOverride style =
     (if id_style style = Null then copyStyle defaultOverride style True else Inr style)"

fun applyDefaults :: "IDomStyle \<Rightarrow> IDomStyle list \<Rightarrow> error + IDomStyle list" where
  "applyDefaults defaultOverride [] = Inr []"
| "applyDefaults defaultOverride (style # sts) =
     (case applyDefault defaultOverride style of
        Inl e \<Rightarrow> Inl e
      | Inr style' \<Rightarrow>
          (case applyDefaults defaultOverride sts of
             Inl e \<Rightarrow> Inl e
           | Inr sts' \<Rightarrow> Inr (style' # sts')))"

definition processStyles ::
  "ThemePart option \<Rightarrow> string \<Rightarrow> IDomStyle list \<Rightarrow> (error + store) option" where
  "processStyles themePart rootClass sts =
     (let n = length sts;
          st0 = \<lparr>heap = sts, stylesMap = Map.empty, prototype = None\<rparr>
      in case indexStyles themePart [0..<n] st0 of
           Inl e \<Rightarrow> Some (Inl e)
         | Inr st1 \<Rightarrow>
             Option.bind (resolveStyles [0..<n] st1) (\<lambda>r.
               case r of
                 Inl e \<Rightarrow> Some (Inl e)
               | Inr st2 \<Rightarrow>
                   (case nameStyles themePart rootClass [0..<n] st2 of
                      Inl e \<Rightarrow> Some (Inl e)
                    | Inr st3 \<Rightarrow>
                        (case defaultOverrideOf (heap st3) of
                           Inl e \<Rightarrow> Some (Inl e)
                         | Inr defaultOverride \<Rightarrow>
                             (case applyDefaults defaultOverride (heap st3) of
                                Inl e \<Rightarrow> Some (Inl e)
                              | Inr sts' \<Rightarrow> Some (Inr (st3\<lparr>heap := sts'\<rparr>)))))))"

text \<open>
  The part of \<open>render\<close> that builds \<open>this.styleMap\<close>: it is set to null, and
  \<open>processStyles\<close> is called whenever the document has a styles part. The theme part is
  tested only around \<open>renderTheme\<close>, which writes to the style container and nothing else.
\<close>

definition render_styleMap ::
  "ThemePart option \<Rightarrow> IDomStyle list option \<Rightarrow> string \<Rightarrow> (error + store option) option" where
  "render_styleMap themePart stylesPart rootClass =
     (case stylesPart of
        None \<Rightarrow> Some (Inr None)
      | Some sts \<Rightarrow>
          map_option (map_sum (\<lambda>e. e) Some) (processStyles themePart rootClass sts))"

text \<open>
  The value a resolved style declares for a property of a target kind: the first block of
  that kind is the one \<open>copyStyle\<close> reads and writes.
\<close>

definition declared :: "IDomSubStyle list \<Rightarrow> string \<Rightarrow> string \<Rightarrow> string option" where
  "declared blocks t k =
     (case find (\<lambda>b. target b = t) blocks of
        None \<Rightarrow> None
      | Some b \<Rightarrow> map_of (values_sub b) k)"

section \<open>Sections\<close>

datatype DomType =
    Paragraph | Run | Break | Text | Table | Row | Cell | Hyperlink | Drawing | Image
  | BookmarkStart | BookmarkEnd | Symbol | Tab | NoBreakHyphen | Footnote | FootnoteReference
  | Header | Footer

text \<open>
  \<open>SectionProperties\<close> is declared in \<open>./document/section\<close>, which is not among the
  sources. Of its fields \<open>splitBySection\<close> reads \<open>id\<close> and writes
  \<open>pageWithinSection\<close>; the page geometry and the header and footer references are
  carried along in \<open>rest_sect\<close>.
\<close>

record SectionProperties =
  id_sect :: string
  pageWithinSection :: "nat option"
  rest_sect :: string

text \<open>
  An element of the document tree. \<open>children\<close> is optional; \<open>styleName\<close> and
  \<open>sectionProps\<close> are the paragraph's, \<open>break\<close> is the break element's kind, and
  \<open>rest\<close> stands for every property the splitter copies and never reads (text, names,
  ids).
\<close>

datatype OpenXmlElement = OpenXmlElement
  (type: DomType)
  (children: "OpenXmlElement list option")
  (styleName: "string option")
  (sectionProps: "SectionProperties nullable")
  (break: "string option")
  (rest: string)

text \<open>\<open>{ ...elem, children: cs }\<close>, and the assignment \<open>elem.children = cs\<close>.\<close>

definition setChildren :: "OpenXmlElement \<Rightarrow> OpenXmlElement list \<Rightarrow> OpenXmlElement" where
  "setChildren e cs =
     OpenXmlElement (type e) (Some cs) (styleName e) (sectionProps e) (break e) (rest e)"

record Section =
  sectProps :: "SectionProperties nullable"
  elements :: "OpenXmlElement list"

record Options =
  breakPages :: bool
  ignoreLastRenderedPageBreak :: bool
  noStyleBlock :: bool

definition isPageBreakElement :: "Options \<Rightarrow> OpenXmlElement \<Rightarrow> bool" where
  "isPageBreakElement options elem =
     (if type elem \<noteq> Break then False
      else if break elem = Some ''lastRenderedPageBreak''
      then \<not> ignoreLastRenderedPageBreak options
      else break elem = Some ''page'')"

text \<open>\<open>Array.prototype.findIndex\<close>: the index of the first match, or \<open>-1\<close>.\<close>

fun findIndexFrom :: "('a \<Rightarrow> bool) \<Rightarrow> int \<Rightarrow> 'a list \<Rightarrow> int" where
  "findIndexFrom p i [] = - 1"
| "findIndexFrom p i (x # xs) = (if p x then i else findIndexFrom p (i + 1) xs)"

text \<open>
  The search for the break: \<open>pBreakIndex\<close> is the index of the first child of the
  paragraph with a page break among its own children, \<open>rBreakIndex\<close> the index of the
  break in that child. The callback assigns \<open>rBreakIndex\<close> at every child, so after a
  search that finds nothing it is \<open>-1\<close>.
\<close>

fun findBreak :: "Options \<Rightarrow> int \<Rightarrow> OpenXmlElement list \<Rightarrow> int \<times> int" where
  "findBreak options i [] = (- 1, - 1)"
| "findBreak options i (r # rs) =
     (let rBreakIndex = (case children r of
                           None \<Rightarrow> - 1
                         | Some cs \<Rightarrow> findIndexFrom (isPageBreakElement options) 0 cs)
      in if rBreakIndex \<noteq> - 1 then (i, rBreakIndex) else findBreak options (i + 1) rs)"

text \<open>
  \<open>while (pBreakIndex > 0 && p.children[pBreakIndex - 1].type === DomType.BookmarkStart)
  pBreakIndex--\<close>
\<close>

fun widen :: "OpenXmlElement list \<Rightarrow> nat \<Rightarrow> nat" where
  "widen cs 0 = 0"
| "widen cs (Suc n) = (if type (cs ! n) = BookmarkStart then widen cs n else Suc n)"

text \<open>
  \<open>isFirstRenderElement\<close> returns false at the first child, of a run, of an element
  before the last one, that is neither a bookmark nor a break, and true when there is
  none; the order in which the three loops search does not change the answer.
\<close>

definition isFirstRenderElement :: "OpenXmlElement list \<Rightarrow> bool" where
  "isFirstRenderElement els =
     (if length els = 1 then True
      else list_all (\<lambda>element.
             case children element of
               None \<Rightarrow> True
             | Some cs \<Rightarrow>
                 list_all (\<lambda>run.
                   if type run \<noteq> Run then True
                   else (case children run of
                           None \<Rightarrow> True
                         | Some rcs \<Rightarrow>
                             list_all (\<lambda>child. type child = BookmarkStart
                                         \<or> type child = BookmarkEnd \<or> type child = Break) rcs))
                   cs)
             (butlast els))"

text \<open>
  \<open>const s = this.styleMap && styleName ? this.styleMap[styleName] : null\<close> and the test
  \<open>s?.paragraphProps?.pageBreakBefore\<close>.
\<close>

definition pageBreakBeforeOf ::
  "(string \<Rightarrow> IDomStyle option) option \<Rightarrow> OpenXmlElement \<Rightarrow> bool" where
  "pageBreakBeforeOf styleMap elem =
     (case styleMap of
        None \<Rightarrow> False
      | Some m \<Rightarrow>
          (case styleName elem of
             None \<Rightarrow> False
           | Some n \<Rightarrow>
               if n = [] then False
               else (case m n of
                       None \<Rightarrow> False
                     | Some s \<Rightarrow>
                         (case paragraphProps s of
                            None \<Rightarrow> False
                          | Some pp \<Rightarrow> pageBreakBefore pp))))"

text \<open>
  \<open>current\<close> is always the section pushed last, so it is the last entry of \<open>result\<close>, and
  a write to \<open>current\<close> is a write to that entry.
\<close>

definition onCurrent :: "(Section \<Rightarrow> Section) \<Rightarrow> Section list \<Rightarrow> Section list" where
  "onCurrent f result = butlast result @ [f (last result)]"

definition emptySection :: Section where
  "emptySection = \<lparr>sectProps = Null, elements = []\<rparr>"

definition isObj :: "'a nullable \<Rightarrow> bool" where
  "isObj v = (case v of Obj _ \<Rightarrow> True | _ \<Rightarrow> False)"

text \<open>
  The split of a paragraph at the break. When the code gets here a new section was
  opened for this paragraph, so the paragraph is the last element of the section before
  the last one, where the assignment \<open>elem.children = ...\<close> shows; the fragment is pushed
  to the new section.
\<close>

definition writeSplit ::
  "Section list \<Rightarrow> OpenXmlElement \<Rightarrow> OpenXmlElement \<Rightarrow> Section list" where
  "writeSplit result elem newParagraph =
     onCurrent (\<lambda>c. c\<lparr>elements := butlast (elements c) @ [elem]\<rparr>) (butlast result)
       @ [(last result)\<lparr>elements := elements (last result) @ [newParagraph]\<rparr>]"

text \<open>
  \<open>pBreakIndex\<close> (after the step back over bookmark starts) and \<open>rBreakIndex\<close> of a
  paragraph; both are \<open>-1\<close> when page breaks are not honoured or the paragraph has no
  children.
\<close>

definition breakIndices :: "Options \<Rightarrow> OpenXmlElement \<Rightarrow> int \<times> int" where
  "breakIndices options p =
     (let found = (if breakPages options
                   then (case children p of
                           None \<Rightarrow> (- 1, - 1)
                         | Some cs \<Rightarrow> findBreak options 0 cs)
                   else (- 1, - 1))
      in (if fst found > 0
          then int (widen (case children p of None \<Rightarrow> [] | Some cs \<Rightarrow> cs) (nat (fst found)))
          else fst found,
          snd found))"

text \<open>
  The body of the loop for a paragraph, after it was pushed to the current section.
  The state is \<open>result\<close>, the variable \<open>sectProps\<close> and the elements of the input
  sequence done so far, as the loop leaves them (the paragraph objects are shared with
  the input array and are assigned to in place).
\<close>

definition splitParagraph ::
  "Options \<Rightarrow> Section list \<Rightarrow> OpenXmlElement \<Rightarrow> OpenXmlElement list
    \<Rightarrow> Section list \<times> SectionProperties nullable \<times> OpenXmlElement list" where
  "splitParagraph options result p done =
     (let sectPropsV = clone (sectionProps p);
          pBreakIndex = fst (breakIndices options p);
          rBreakIndex = snd (breakIndices options p);
          result1 =
            (if isObj sectPropsV
                \<or> (pBreakIndex > - 1
                    \<and> pBreakIndex > (if isFirstRenderElement (elements (last result))
                                     then 0 else - 1))
             then (let r = (if isObj sectPropsV
                            then onCurrent (\<lambda>c. c\<lparr>sectProps := clone sectPropsV\<rparr>) result
                            else result)
                   in if pBreakIndex = 0
                      then onCurrent (\<lambda>c. c\<lparr>elements := butlast (elements c)\<rparr>) r
                             @ [\<lparr>sectProps = Null, elements = [p]\<rparr>]
                      else r @ [emptySection])
             else result)
      in case children p of
           None \<Rightarrow> (result1, sectPropsV, done @ [p])
         | Some cs \<Rightarrow>
             if pBreakIndex \<le> 0 \<or> int (length cs) \<le> pBreakIndex
             then (result1, sectPropsV, done @ [p])
             else
               (let breakRun = cs ! nat pBreakIndex
                in case children breakRun of
                     None \<Rightarrow> (result1, sectPropsV, done @ [p])
                   | Some runChildren \<Rightarrow>
                       (let splitRun = (rBreakIndex < int (length runChildren) - 1)
                        in if \<not> (pBreakIndex < int (length cs) - 1 \<or> splitRun)
                           then (result1, sectPropsV, done @ [p])
                           else if \<not> splitRun
                           then (writeSplit result1
                                   (setChildren p (take (nat pBreakIndex) cs))
                                   (setChildren p (drop (nat pBreakIndex) cs)),
                                 sectPropsV,
                                 done @ [setChildren p (take (nat pBreakIndex) cs)])
                           else
                             (let newRun = setChildren breakRun
                                             (take (nat rBreakIndex) runChildren);
                                  cutRun = setChildren breakRun
                                             (drop (nat rBreakIndex) runChildren);
                                  elem' = setChildren p (take (nat pBreakIndex) cs @ [newRun]);
                                  newParagraph = setChildren p
                                                   (cutRun # drop (Suc (nat pBreakIndex)) cs)
                              in (writeSplit result1 elem' newParagraph,
                                  sectPropsV, done @ [elem'])))))"

text \<open>The body of the loop \<open>for (let elem of elements)\<close>.\<close>

definition splitStep ::
  "Options \<Rightarrow> (string \<Rightarrow> IDomStyle option) option
    \<Rightarrow> Section list \<times> SectionProperties nullable \<times> OpenXmlElement list
    \<Rightarrow> OpenXmlElement
    \<Rightarrow> Section list \<times> SectionProperties nullable \<times> OpenXmlElement list" where
  "splitStep options styleMap state elem =
     (case state of (result, sectPropsV, done) \<Rightarrow>
        (let result1 =
               (if type elem = Paragraph \<and> pageBreakBeforeOf styleMap elem
                then onCurrent (\<lambda>c. c\<lparr>sectProps := clone sectPropsV\<rparr>) result
                       @ [emptySection]
                else result);
             result2 = onCurrent (\<lambda>c. c\<lparr>elements := elements c @ [elem]\<rparr>) result1
         in if type elem \<noteq> Paragraph then (result2, sectPropsV, done @ [elem])
            else splitParagraph options result2 elem done))"

definition splitLoop ::
  "Options \<Rightarrow> (string \<Rightarrow> IDomStyle option) option \<Rightarrow> OpenXmlElement list
    \<Rightarrow> Section list \<times> SectionProperties nullable \<times> OpenXmlElement list" where
  "splitLoop options styleMap els =
     foldl (splitStep options styleMap) ([emptySection], Undefined, []) els"

text \<open>
  The pass from the last section to the first, over the reversed list: a section whose
  properties are null takes a copy of the properties met last.
\<close>

fun fillBack :: "Section list \<Rightarrow> SectionProperties nullable \<Rightarrow> Section list" where
  "fillBack [] currentSectProps = []"
| "fillBack (s # ss) currentSectProps =
     (if sectProps s = Null
      then s\<lparr>sectProps := clone currentSectProps\<rparr> # fillBack ss currentSectProps
      else s # fillBack ss (clone (sectProps s)))"

text \<open>
  The loop of \<open>addSectionInnerPageNums\<close>. Only null is skipped: on properties that are
  undefined the read of \<open>sectProps.id\<close> throws.
\<close>

fun pageNums :: "string \<Rightarrow> nat \<Rightarrow> Section list \<Rightarrow> error + Section list" where
  "pageNums lastSectionId sectiontPageCount [] = Inr []"
| "pageNums lastSectionId sectiontPageCount (s # ss) =
     (case sectProps s of
        Null \<Rightarrow>
          (case pageNums lastSectionId sectiontPageCount ss of
             Inl e \<Rightarrow> Inl e
           | Inr r \<Rightarrow> Inr (s # r))
      | Undefined \<Rightarrow> Inl TypeError
      | Obj sp \<Rightarrow>
          (let cnt = (if id_sect sp \<noteq> lastSectionId then 1 else sectiontPageCount + 1)
           in case pageNums (id_sect sp) cnt ss of
                Inl e \<Rightarrow> Inl e
              | Inr r \<Rightarrow>
                  Inr (s\<lparr>sectProps := Obj (sp\<lparr>pageWithinSection := Some cnt\<rparr>)\<rparr> # r)))"

definition addSectionInnerPageNums :: "Section list \<Rightarrow> error + Section list" where
  "addSectionInnerPageNums result = pageNums [] 0 result"

text \<open>
  \<open>splitBySection\<close> returns the sections; the second component is the input sequence as
  the call leaves it.
\<close>

definition splitBySection ::
  "Options \<Rightarrow> (string \<Rightarrow> IDomStyle option) option \<Rightarrow> OpenXmlElement list
    \<Rightarrow> SectionProperties nullable
    \<Rightarrow> error + (Section list \<times> OpenXmlElement list)" where
  "splitBySection options styleMap els lastSectionProps =
     (case splitLoop options styleMap els of (result, sectPropsV, done) \<Rightarrow>
        (let result1 = onCurrent (\<lambda>c. c\<lparr>sectProps := lastSectionProps\<rparr>) result;
             result2 = rev (fillBack (rev result1) Null)
         in case addSectionInnerPageNums result2 of
              Inl e \<Rightarrow> Inl e
            | Inr r \<Rightarrow> Inr (r, done)))"

text \<open>
  The input sequence as a call of \<open>splitBySection\<close> leaves it, also when the call throws
  in \<open>addSectionInnerPageNums\<close> after the loop.
\<close>

definition inputAfter ::
  "Options \<Rightarrow> (string \<Rightarrow> IDomStyle option) option \<Rightarrow> OpenXmlElement list
    \<Rightarrow> OpenXmlElement list" where
  "inputAfter options styleMap els = snd (snd (splitLoop options styleMap els))"

text \<open>A section with properties \<open>L\<close> that is page \<open>n\<close> of its run of sections.\<close>

definition sec :: "SectionProperties \<Rightarrow> nat \<Rightarrow> OpenXmlElement list \<Rightarrow> Section" where
  "sec L n es = \<lparr>sectProps = Obj (L\<lparr>pageWithinSection := Some n\<rparr>), elements = es\<rparr>"

subsection \<open>Example documents\<close>

definition mkText :: "string \<Rightarrow> OpenXmlElement" where
  "mkText s = OpenXmlElement Text None None Undefined None s"

definition mkBreak :: "string \<Rightarrow> OpenXmlElement" where
  "mkBreak kind = OpenXmlElement Break None None Undefined (Some kind) []"

definition mkRun :: "OpenXmlElement list \<Rightarrow> OpenXmlElement" where
  "mkRun cs = OpenXmlElement Run (Some cs) None Undefined None []"

text \<open>A bookmark start has no \<open>children\<close> property.\<close>

definition mkBookmarkStart :: "string \<Rightarrow> OpenXmlElement" where
  "mkBookmarkStart n = OpenXmlElement BookmarkStart None None Undefined None n"

definition mkParagraph ::
  "string option \<Rightarrow> SectionProperties nullable \<Rightarrow> OpenXmlElement list \<Rightarrow> OpenXmlElement" where
  "mkParagraph sn sp cs = OpenXmlElement Paragraph (Some cs) sn sp None []"

definition exOptions :: Options where
  "exOptions = \<lparr>breakPages = True, ignoreLastRenderedPageBreak = True, noStyleBlock = False\<rparr>"

definition exLast :: SectionProperties where
  "exLast = \<lparr>id_sect = ''last'', pageWithinSection = None, rest_sect = ''A4''\<rparr>"

definition exS1 :: SectionProperties where
  "exS1 = \<lparr>id_sect = ''s1'', pageWithinSection = None, rest_sect = ''A5''\<rparr>"

definition exPlain :: OpenXmlElement where
  "exPlain = mkParagraph None Undefined [mkRun [mkText ''a'']]"

definition exEmpty :: OpenXmlElement where
  "exEmpty = mkParagraph None Undefined []"

definition exSectionEnd :: OpenXmlElement where
  "exSectionEnd = mkParagraph None (Obj exS1) [mkRun [mkText ''b'']]"

definition exBreakFirst :: OpenXmlElement where
  "exBreakFirst = mkParagraph None Undefined [mkRun [mkBreak ''page'', mkText ''b'']]"

definition exBreakThird3 :: OpenXmlElement where
  "exBreakThird3 = mkParagraph None Undefined
     [mkRun [mkText ''x''], mkRun [mkText ''y''], mkRun [mkBreak ''page'']]"

definition exBreakThird4 :: OpenXmlElement where
  "exBreakThird4 = mkParagraph None Undefined
     [mkRun [mkText ''x''], mkRun [mkText ''y''], mkRun [mkBreak ''page''], mkRun [mkText ''z'']]"

definition exBookmark :: OpenXmlElement where
  "exBookmark = mkParagraph None Undefined
     [mkRun [mkText ''x''], mkBookmarkStart ''bm'', mkRun [mkBreak ''page'', mkText ''v'']]"

definition exHeadingStyle :: IDomStyle where
  "exHeadingStyle = \<lparr>id_style = Obj ''H'', basedOn = Undefined, isDefault = False, styles = [],
     basedOnResolved = Some True, cssName = Some ''docx_H'',
     paragraphProps = Some \<lparr>pageBreakBefore = True\<rparr>, others = []\<rparr>"

definition exHeading :: OpenXmlElement where
  "exHeading = mkParagraph (Some ''H'') Undefined [mkRun [mkText ''title'']]"

section \<open>Numbering\<close>

text \<open>
  A JavaScript number as the numbering code meets it: a double that holds an integer (a
  level, or the number of a placeholder), \<open>NaN\<close>, which \<open>parseInt\<close> returns for a
  placeholder without digits, or an infinity, which it returns for a placeholder with
  more digits than a double can hold. \<open>Num i\<close> is the double of value \<open>i\<close>.
\<close>

datatype number = Num int | NaN | PosInfinity | NegInfinity

text \<open>The number of binary digits of a natural number.\<close>

fun bitlen :: "nat \<Rightarrow> nat" where
  "bitlen n = (if n = 0 then 0 else Suc (bitlen (n div 2)))"

declare bitlen.simps [simp del]

text \<open>
  The double nearest to a natural number, ties to the even significand: below
  \<open>2 ^ 53\<close> every integer is a double, above it a double keeps the 53 leading binary
  digits. \<open>None\<close> is the result beyond the largest double.
\<close>

definition roundNat :: "nat \<Rightarrow> nat option" where
  "roundNat v =
     (if v < 2 ^ 53 then Some v
      else (let e = bitlen v - 53;
                q = v div 2 ^ e;
                r = v mod 2 ^ e;
                q' = (if 2 ^ (e - 1) < r \<or> (r = 2 ^ (e - 1) \<and> odd q) then q + 1 else q)
            in if 2 ^ 1024 \<le> q' * 2 ^ e then None else Some (q' * 2 ^ e)))"

definition toDouble :: "int \<Rightarrow> number" where
  "toDouble i =
     (case roundNat (nat \<bar>i\<bar>) of
        None \<Rightarrow> if i < 0 then NegInfinity else PosInfinity
      | Some v \<Rightarrow> Num (if i < 0 then - int v else int v))"

text \<open>The decimal digits of a natural number.\<close>

definition digitChar :: "nat \<Rightarrow> char" where
  "digitChar n = ''0123456789'' ! n"

fun showNat :: "nat \<Rightarrow> string" where
  "showNat n =
     (if n < 10 then [digitChar n]
      else showNat (n div 10) @ [digitChar (n mod 10)])"

declare showNat.simps [simp del]

text \<open>
  \<open>Number::toString\<close> prints the decimal with the fewest significant digits that rounds to
  the double, and of these the one nearest to it (of two equally near, the even one).
  \<open>candidates v k\<close> are the decimals with \<open>k\<close> significant digits next to \<open>v\<close> that round
  to \<open>v\<close>; seventeen digits always tell a double from its neighbours.
\<close>

definition candidates :: "nat \<Rightarrow> nat \<Rightarrow> nat list" where
  "candidates v k =
     (let u = 10 ^ (length (showNat v) - k);
          lo = (v div u) * u
      in filter (\<lambda>c. roundNat c = Some v)
           (if v - lo < lo + u - v then [lo, lo + u]
            else if lo + u - v < v - lo then [lo + u, lo]
            else if even (v div u) then [lo, lo + u] else [lo + u, lo]))"

definition shortest :: "nat \<Rightarrow> nat" where
  "shortest v =
     (case List.find (\<lambda>k. candidates v k \<noteq> []) [1..<18] of
        None \<Rightarrow> v
      | Some k \<Rightarrow> hd (candidates v k))"

text \<open>
  A decimal of at most 21 digits is printed in full, a longer one with an exponent:
  the significant digits, a point after the first of them, and the exponent.
\<close>

definition showDecimal :: "nat \<Rightarrow> string" where
  "showDecimal c =
     (let ds = showNat c; n = length ds
      in if n \<le> 21 then ds
         else (let s = rev (dropWhile (\<lambda>x. x = CHR ''0'') (rev ds))
               in hd s # (if tl s = [] then [] else ''.'' @ tl s) @ ''e+'' @ showNat (n - 1)))"

text \<open>
  The text a template literal prints for a number. Below \<open>2 ^ 53\<close> the fewest digits
  that round to an integer are its own.
\<close>

definition showDouble :: "nat \<Rightarrow> string" where
  "showDouble v = (if v < 2 ^ 53 then showNat v else showDecimal (shortest v))"

fun numberToString :: "number \<Rightarrow> string" where
  "numberToString NaN = ''NaN''"
| "numberToString PosInfinity = ''Infinity''"
| "numberToString NegInfinity = ''-Infinity''"
| "numberToString (Num i) =
     (if i < 0 then ''-'' @ showDouble (nat (- i)) else showDouble (nat i))"

definition numberingClass :: "string \<Rightarrow> string \<Rightarrow> number \<Rightarrow> string" where
  "numberingClass className ident lvl = className @ ''-num-'' @ ident @ ''-'' @ numberToString lvl"

definition numberingCounter :: "string \<Rightarrow> string \<Rightarrow> number \<Rightarrow> string" where
  "numberingCounter className ident lvl = className @ ''-num-'' @ ident @ ''-'' @ numberToString lvl"

text \<open>The entries of \<open>noCssDict\<close>: per selector, per rule.\<close>

record CssChangeObject =
  cssRuleCamel :: string
  newVal :: string

type_synonym noCssDict = "(string \<times> (string \<times> CssChangeObject) list) list"

text \<open>\<open>IDomNumbering\<close>, as far as \<open>renderNumbering\<close> reads it.\<close>

record NumberingPicBullet =
  src :: string
  style_bullet :: "string option"

record IDomNumbering =
  id_num :: string
  level :: number
  bullet :: "NumberingPicBullet option"
  levelText :: "string option"
  suff :: "string option"
  format :: string
  rStyle :: css
  pStyle :: css

definition crlf :: string where
  "crlf = [CHR 0x0D, CHR 0x0A]"

text \<open>\<open>selectors.split(", ")\<close>; \<open>acc\<close> is the piece being read, reversed.\<close>

fun splitSelectors :: "string \<Rightarrow> string \<Rightarrow> string list" where
  "splitSelectors acc [] = [rev acc]"
| "splitSelectors acc [c] = [rev (c # acc)]"
| "splitSelectors acc (c # d # cs) =
     (if c = CHR '','' \<and> d = CHR '' '' then rev acc # splitSelectors [] cs
      else splitSelectors (c # acc) (d # cs))"

text \<open>ASCII classes and case, for \<open>/-([a-z])/g\<close>, \<open>\\d\<close> and \<open>toLowerCase\<close>.\<close>

definition isLower :: "char \<Rightarrow> bool" where
  "isLower c = (97 \<le> (of_char c :: nat) \<and> (of_char c :: nat) \<le> 122)"

definition isUpper :: "char \<Rightarrow> bool" where
  "isUpper c = (65 \<le> (of_char c :: nat) \<and> (of_char c :: nat) \<le> 90)"

definition isDigit :: "char \<Rightarrow> bool" where
  "isDigit c = (48 \<le> (of_char c :: nat) \<and> (of_char c :: nat) \<le> 57)"

definition toUpper :: "char \<Rightarrow> char" where
  "toUpper c = (if isLower c then char_of ((of_char c :: nat) - 32) else c)"

definition toLower :: "char \<Rightarrow> char" where
  "toLower c = (if isUpper c then char_of ((of_char c :: nat) + 32) else c)"

text \<open>\<open>key.replace(/-([a-z])/g, (m, w) => w.toUpperCase())\<close>\<close>

fun camelCase :: "string \<Rightarrow> string" where
  "camelCase [] = []"
| "camelCase [c] = [c]"
| "camelCase (c # d # cs) =
     (if c = CHR ''-'' \<and> isLower d then toUpper d # camelCase cs
      else c # camelCase (d # cs))"

text \<open>
  \<open>noCssDict\<close> is created as \<open>{}\<close>. For a piece \<open>split\<close> that names a member of
  \<open>Object.prototype\<close> and is no own property, \<open>this.noCssDict[split]\<close> is that member:
  the test \<open>=== undefined\<close> fails and the rules are written to the built-in, not to the
  dictionary. An assignment under the rule name \<open>__proto__\<close> sets the prototype of the
  entry and creates no property.
\<close>

definition setRule :: "string \<Rightarrow> string \<Rightarrow> CssChangeObject \<Rightarrow> noCssDict \<Rightarrow> noCssDict" where
  "setRule split key entry dict =
     (if map_of dict split = None \<and> split \<in> set objectPrototypeKeys then dict
      else AList.update split
             (AList.update key entry (case map_of dict split of None \<Rightarrow> [] | Some e \<Rightarrow> e))
             dict)"

text \<open>The inner loop of the branch of \<open>styleToString\<close> that fills \<open>noCssDict\<close>.\<close>

fun setRules :: "string \<Rightarrow> css \<Rightarrow> noCssDict \<Rightarrow> noCssDict" where
  "setRules split [] dict = dict"
| "setRules split ((key, v) # vs) dict =
     setRules split vs
       (if key = ''__proto__'' then dict
        else setRule split key \<lparr>cssRuleCamel = camelCase key, newVal = v\<rparr> dict)"

text \<open>\<open>if (this.noCssDict[split] === undefined) this.noCssDict[split] = {}\<close>\<close>

definition initSelector :: "string \<Rightarrow> noCssDict \<Rightarrow> noCssDict" where
  "initSelector split dict =
     (if map_of dict split = None \<and> split \<notin> set objectPrototypeKeys
      then AList.update split [] dict else dict)"

fun setSelectors :: "string list \<Rightarrow> css \<Rightarrow> noCssDict \<Rightarrow> noCssDict" where
  "setSelectors [] vs dict = dict"
| "setSelectors (split # splits) vs dict =
     setSelectors splits vs (setRules split vs (initSelector split dict))"

text \<open>\<open>styleToString\<close> returns the rule text and the dictionary as it leaves it.\<close>

definition styleToString ::
  "Options \<Rightarrow> noCssDict \<Rightarrow> string \<Rightarrow> css \<Rightarrow> string option \<Rightarrow> string \<times> noCssDict" where
  "styleToString options dict selectors vs cssText =
     (if \<not> noStyleBlock options
      then (selectors @ '' {'' @ crlf
              @ concat (map (\<lambda>(key, v). ''  '' @ key @ '': '' @ v @ '';'' @ crlf) vs)
              @ (case cssText of None \<Rightarrow> [] | Some t \<Rightarrow> t)
              @ ''}'' @ crlf,
            dict)
      else ([], setSelectors (splitSelectors [] selectors) vs dict))"

text \<open>\<open>parseInt(s, 10)\<close> on a string of digits: the double nearest to their value.\<close>

definition parseInt :: "string \<Rightarrow> number" where
  "parseInt ds =
     (if ds = [] then NaN
      else toDouble (int (foldl (\<lambda>n c. 10 * n + ((of_char c :: nat) - 48)) 0 ds)))"

text \<open>\<open>x - 1\<close> on such a number: the double nearest to the difference.\<close>

fun minus1 :: "number \<Rightarrow> number" where
  "minus1 (Num i) = toDouble (i - 1)"
| "minus1 NaN = NaN"
| "minus1 PosInfinity = PosInfinity"
| "minus1 NegInfinity = NegInfinity"

text \<open>
  \<open>text.replace(/%\\d*/g, f)\<close>: the second argument holds the digits read after a
  \<open>%\<close> that is still open.
\<close>

fun replacePlaceholders :: "(string \<Rightarrow> string) \<Rightarrow> string option \<Rightarrow> string \<Rightarrow> string" where
  "replacePlaceholders f None [] = []"
| "replacePlaceholders f (Some ds) [] = f ds"
| "replacePlaceholders f None (c # cs) =
     (if c = CHR ''%'' then replacePlaceholders f (Some []) cs
      else c # replacePlaceholders f None cs)"
| "replacePlaceholders f (Some ds) (c # cs) =
     (if isDigit c then replacePlaceholders f (Some (ds @ [c])) cs
      else f ds @ (if c = CHR ''%'' then replacePlaceholders f (Some []) cs
                   else c # replacePlaceholders f None cs))"

text \<open>
  The text a template literal prints for the member \<open>k\<close> of \<open>Object.prototype\<close>: the
  prototype itself prints as \<open>[object Object]\<close>, a built-in function with its name and
  the body \<open>[native code]\<close> (the layout is the engine's; this is the one of V8).
\<close>

definition builtinText :: "string \<Rightarrow> string" where
  "builtinText k =
     (if k = ''__proto__'' then ''[object Object]''
      else ''function '' @ (if k = ''constructor'' then ''Object'' else k)
             @ ''() { [native code] }'')"

text \<open>
  \<open>suffMap[suff] ?? ""\<close>: the map is an object literal, so a suffix that names a member
  of \<open>Object.prototype\<close> finds it.
\<close>

definition suffMap :: "string option \<Rightarrow> string" where
  "suffMap suffix =
     (case suffix of
        None \<Rightarrow> []
      | Some k \<Rightarrow>
          if k = ''tab'' then [CHR 0x5C] @ ''9''
          else if k = ''space'' then [CHR 0x5C] @ ''a0''
          else if k \<in> set objectPrototypeKeys then builtinText k
          else [])"

definition levelTextToContent ::
  "string \<Rightarrow> string \<Rightarrow> string option \<Rightarrow> string \<Rightarrow> string \<Rightarrow> string" where
  "levelTextToContent className template suffix ident numformat =
     (let result = replacePlaceholders
                     (\<lambda>ds. [CHR 0x22] @ ''counter(''
                              @ numberingCounter className ident (minus1 (parseInt ds))
                              @ '', '' @ numformat @ '')'' @ [CHR 0x22])
                     None template
      in [CHR 0x22] @ result @ suffMap suffix @ [CHR 0x22])"

text \<open>
  \<open>mapping[format] || format\<close>: \<open>mapping\<close> is an object literal too, and the built-in it
  finds is printed when the value is written into a rule.
\<close>

definition numFormatToCssValue :: "string \<Rightarrow> string" where
  "numFormatToCssValue fmt =
     (if fmt = ''none'' then ''none''
      else if fmt = ''bullet'' then ''disc''
      else if fmt = ''decimal'' then ''decimal''
      else if fmt = ''lowerLetter'' then ''lower-alpha''
      else if fmt = ''upperLetter'' then ''upper-alpha''
      else if fmt = ''lowerRoman'' then ''lower-roman''
      else if fmt = ''upperRoman'' then ''upper-roman''
      else if fmt \<in> set objectPrototypeKeys then builtinText fmt
      else fmt)"

text \<open>An object literal followed by a spread: \<open>{ ...base, ...extra }\<close>.\<close>

definition spread :: "css \<Rightarrow> css \<Rightarrow> css" where
  "spread base extra = foldl (\<lambda>acc (key, v). AList.update key v acc) base extra"

fun isPositive :: "number \<Rightarrow> bool" where
  "isPositive (Num i) = (0 < i)"
| "isPositive NaN = False"
| "isPositive PosInfinity = True"
| "isPositive NegInfinity = False"

text \<open>
  The body of the loop of \<open>renderNumbering\<close>, on the state \<open>styleText\<close>,
  \<open>rootCounters\<close> and \<open>noCssDict\<close>. The image of a bullet is loaded after the call
  has returned and is no part of the text it returns.
\<close>

definition renderNumberingStep ::
  "Options \<Rightarrow> string \<Rightarrow> string \<times> string list \<times> noCssDict \<Rightarrow> IDomNumbering
    \<Rightarrow> string \<times> string list \<times> noCssDict" where
  "renderNumberingStep options className state num =
     (case state of (styleText, rootCounters, dict) \<Rightarrow>
        (let selector = ''p.'' @ numberingClass className (id_num num) (level num);
             base = (\<lambda>listStyleType sofar rc d.
                       (let r = styleToString options d selector
                                  (spread [(''display'', ''list-item''),
                                           (''list-style-position'', ''inside''),
                                           (''list-style-type'', listStyleType)] (pStyle num))
                                  None
                        in (sofar @ fst r, rc, snd r)))
         in case bullet num of
              Some b \<Rightarrow>
                (let valiable = map toLower (''--'' @ className @ ''-'' @ src b);
                     r = styleToString options dict (selector @ '':before'')
                           [(''content'', [CHR 0x27, CHR '' '', CHR 0x27]),
                            (''display'', ''inline-block''),
                            (''background'', ''var('' @ valiable @ '')'')]
                           (style_bullet b)
                 in base ''none'' (styleText @ fst r) rootCounters (snd r))
            | None \<Rightarrow>
                (if levelText num \<noteq> None \<and> levelText num \<noteq> Some []
                 then
                   (let counter = numberingCounter className (id_num num) (level num);
                        r1 = (if isPositive (level num)
                              then styleToString options dict
                                     (''p.'' @ numberingClass className (id_num num)
                                                 (minus1 (level num)))
                                     [(''counter-reset'', counter)] None
                              else ([], dict));
                        rootCounters' = (if isPositive (level num) then rootCounters
                                         else rootCounters @ [counter]);
                        r2 = styleToString options (snd r1) (selector @ '':before'')
                               (spread [(''content'',
                                         levelTextToContent className (the (levelText num))
                                           (suff num) (id_num num)
                                           (numFormatToCssValue (format num))),
                                        (''counter-increment'', counter)] (rStyle num))
                               None
                    in base ''none'' (styleText @ fst r1 @ fst r2) rootCounters' (snd r2))
                 else base (numFormatToCssValue (format num)) styleText rootCounters dict)))"

fun join :: "string \<Rightarrow> string list \<Rightarrow> string" where
  "join sep [] = []"
| "join sep [x] = x"
| "join sep (x # y # ys) = x @ sep @ join sep (y # ys)"

definition renderNumbering ::
  "Options \<Rightarrow> string \<Rightarrow> noCssDict \<Rightarrow> IDomNumbering list \<Rightarrow> string \<times> noCssDict" where
  "renderNumbering options className dict numberings =
     (case foldl (renderNumberingStep options className) ([], [], dict) numberings of
        (styleText, rootCounters, dict') \<Rightarrow>
          (if rootCounters \<noteq> []
           then (let r = styleToString options dict' (''.'' @ className @ ''-wrapper'')
                           [(''counter-reset'', join '' '' rootCounters)] None
                 in (styleText @ fst r, snd r))
           else (styleText, dict')))"

definition exNum :: "number \<Rightarrow> string option \<Rightarrow> IDomNumbering" where
  "exNum l t = \<lparr>id_num = ''3'', level = l, bullet = None, levelText = t, suff = Some ''tab'',
     format = ''decimal'', rStyle = [], pStyle = [(''margin-left'', ''36pt'')]\<rparr>"

definition exNoBlock :: Options where
  "exNoBlock = \<lparr>breakPages = True, ignoreLastRenderedPageBreak = True, noStyleBlock = True\<rparr>"

subsection \<open>The writes to the dictionary\<close>

text \<open>
  The assignments the branch of \<open>styleToString\<close> that fills \<open>noCssDict\<close> makes, one by
  one: the creation of the entry of a selector, and the assignment of a rule in it.
\<close>

datatype dictWrite = InitSelector string | SetRule string string CssChangeObject

fun applyWrite :: "noCssDict \<Rightarrow> dictWrite \<Rightarrow> noCssDict" where
  "applyWrite dict (InitSelector split) = initSelector split dict"
| "applyWrite dict (SetRule split key entry) = setRule split key entry dict"

text \<open>
  The write finds its place in the dictionary, so that it adds no key: the selector (and
  the rule) is there already, or the selector is a member of \<open>Object.prototype\<close> that the
  dictionary does not hold.
\<close>

fun inPlace :: "dictWrite \<Rightarrow> noCssDict \<Rightarrow> bool" where
  "inPlace (InitSelector split) dict =
     (map_of dict split \<noteq> None \<or> split \<in> set objectPrototypeKeys)"
| "inPlace (SetRule split key entry) dict =
     (case map_of dict split of
        None \<Rightarrow> split \<in> set objectPrototypeKeys
      | Some e \<Rightarrow> key \<in> fst ` set e)"

text \<open>The function changes the dictionary by a fixed sequence of writes.\<close>

definition writes :: "(noCssDict \<Rightarrow> noCssDict) \<Rightarrow> bool" where
  "writes f = (\<exists>ws. \<forall>dict. f dict = foldl applyWrite dict ws)"

section \<open>Statements about the style sheet\<close>

text \<open>
  A property map on which the calls of \<open>hasOwnProperty\<close> reach the method of
  \<open>Object.prototype\<close>, and which has no own property \<open>__proto__\<close>; a style whose blocks
  are such maps.
\<close>

definition safeCss :: "css \<Rightarrow> bool" where
  "safeCss c = (map_of c ''hasOwnProperty'' = None \<and> map_of c ''__proto__'' = None)"

definition safeStyle :: "IDomStyle \<Rightarrow> bool" where
  "safeStyle s = list_all (\<lambda>b. safeCss (values_sub b)) (styles s)"

text \<open>
  What the merge yields when no call throws: the loop of \<open>copyStyleProperties\<close>, the merge
  of one block's properties into another's, the iteration and the loop of \<open>copyStyle\<close>,
  and the tail of \<open>resolveBaseStyle\<close>.
\<close>

fun mergeProps :: "string list \<Rightarrow> css \<Rightarrow> css \<Rightarrow> bool \<Rightarrow> css" where
  "mergeProps [] input output ov = output"
| "mergeProps (key # attrs) input output ov =
     mergeProps attrs input
       (case map_of input key of
          Some v \<Rightarrow> if ov \<or> map_of output key = None then AList.update key v output else output
        | None \<Rightarrow> output)
       ov"

definition mergedValues :: "css \<Rightarrow> css \<Rightarrow> bool \<Rightarrow> css" where
  "mergedValues input output ov = mergeProps (map fst input) input output ov"

fun mergeBlock :: "IDomSubStyle \<Rightarrow> bool \<Rightarrow> IDomSubStyle list \<Rightarrow> IDomSubStyle list" where
  "mergeBlock b ov [] = [b]"
| "mergeBlock b ov (t # ts) =
     (if target t = target b
      then t\<lparr>values_sub := mergedValues (values_sub b) (values_sub t) ov\<rparr> # ts
      else t # mergeBlock b ov ts)"

fun mergeBlocks :: "IDomSubStyle list \<Rightarrow> bool \<Rightarrow> IDomSubStyle list \<Rightarrow> IDomSubStyle list" where
  "mergeBlocks [] ov ts = ts"
| "mergeBlocks (b # bs) ov ts = mergeBlocks bs ov (mergeBlock b ov ts)"

definition mergeStyle :: "IDomStyle \<Rightarrow> IDomStyle \<Rightarrow> bool \<Rightarrow> IDomStyle" where
  "mergeStyle base tgt ov = tgt\<lparr>styles := mergeBlocks (styles base) ov (styles tgt)\<rparr>"


text \<open>
  The value the nearest style of a chain declares for a property, the leaf first.
\<close>

fun firstDeclared :: "IDomStyle list \<Rightarrow> string \<Rightarrow> string \<Rightarrow> string option" where
  "firstDeclared [] t k = None"
| "firstDeclared (s # ss) t k =
     (case declared (styles s) t k of Some v \<Rightarrow> Some v | None \<Rightarrow> firstDeclared ss t k)"



text \<open>What the style at an address declares after a run of \<open>processStyles\<close>.\<close>

definition declaredAfter ::
  "(error + store) option \<Rightarrow> nat \<Rightarrow> string \<Rightarrow> string \<Rightarrow> (error + string option) option" where
  "declaredAfter r a t k =
     map_option (map_sum (\<lambda>e. e) (\<lambda>st. declared (styles (heap st ! a)) t k)) r"

subsection \<open>The passes of \<open>processStyles\<close>\<close>


text \<open>A theme pass over a style, with these fonts.\<close>

definition themed :: "string option \<times> string option \<Rightarrow> bool \<Rightarrow> IDomStyle \<Rightarrow> IDomStyle" where
  "themed fonts addDefault s =
     s\<lparr>styles := map (replaceAsciiThemeSub (fst fonts) (snd fonts) addDefault) (styles s)\<rparr>"

text \<open>What the first loop makes of a style that has an id.\<close>

definition indexed :: "string option \<times> string option \<Rightarrow> IDomStyle \<Rightarrow> IDomStyle" where
  "indexed fonts s = (themed fonts False s)\<lparr>basedOnResolved := Some (\<not> truthy (basedOn s))\<rparr>"





subsection \<open>Example style sheets\<close>

definition exTheme :: "ThemePart option" where
  "exTheme = Some \<lparr>theme = Some \<lparr>fontScheme = Some \<lparr>majorFont = None,
     minorFont = Some \<lparr>latinTypeface = Some ''Calibri''\<rparr>\<rparr>\<rparr>\<rparr>"

definition mkStyle ::
  "string nullable \<Rightarrow> string nullable \<Rightarrow> bool \<Rightarrow> IDomSubStyle list \<Rightarrow> IDomStyle" where
  "mkStyle i b d ss = \<lparr>id_style = i, basedOn = b, isDefault = d, styles = ss,
     basedOnResolved = None, cssName = None, paragraphProps = None, others = []\<rparr>"


definition exDefault :: IDomStyle where
  "exDefault = mkStyle (Obj ''d'') Undefined True
     [\<lparr>target = ''span'', values_sub = [(''color'', ''blue'')]\<rparr>]"

definition exShadow :: IDomStyle where
  "exShadow = mkStyle (Obj ''d'') Undefined True
     [\<lparr>target = ''span'', values_sub = [(''hasOwnProperty'', ''x'')]\<rparr>]"

definition exAnon :: IDomStyle where
  "exAnon = mkStyle Null Undefined False
     [\<lparr>target = ''span'', values_sub = [(''color'', ''red'')]\<rparr>]"

definition exParent :: IDomStyle where
  "exParent = mkStyle (Obj ''P'') Undefined True
     [\<lparr>target = ''span'', values_sub = [(''color'', ''black'')]\<rparr>]"

definition exLeaf :: IDomStyle where
  "exLeaf = mkStyle (Obj ''L'') (Obj ''P'') False
     [\<lparr>target = ''span'', values_sub = [(''asciiTheme'', ''minorHAnsi'')]\<rparr>,
      \<lparr>target = ''td'', values_sub = [(''color'', ''red'')]\<rparr>,
      \<lparr>target = ''td'', values_sub = [(''color'', ''green'')]\<rparr>]"

definition exCycle :: "IDomStyle list" where
  "exCycle = [mkStyle (Obj ''A'') (Obj ''B'') True [], mkStyle (Obj ''B'') (Obj ''A'') False []]"

definition exCycleStore :: store where
  "exCycleStore =
     \<lparr>heap = [(mkStyle (Obj ''A'') (Obj ''B'') True [])\<lparr>basedOnResolved := Some False\<rparr>,
              (mkStyle (Obj ''B'') (Obj ''A'') False [])\<lparr>basedOnResolved := Some False\<rparr>],
      stylesMap = [''A'' \<mapsto> 0, ''B'' \<mapsto> Suc 0], prototype = None\<rparr>"





section \<open>Properties of the section splitter\<close>

lemmas ex_defs =
  mkText_def mkBreak_def mkRun_def mkBookmarkStart_def mkParagraph_def exOptions_def
  exLast_def exS1_def exPlain_def exEmpty_def exSectionEnd_def exBreakFirst_def
  exBreakThird3_def exBreakThird4_def exBookmark_def exHeadingStyle_def exHeading_def


lemma onCurrent_snoc [simp]: "onCurrent f (xs @ [x]) = xs @ [f x]"
  by (simp add: onCurrent_def)

lemma onCurrent_single [simp]: "onCurrent f [x] = [f x]"
  by (simp add: onCurrent_def)

lemma onCurrent_Cons [simp]: "onCurrent f (x # y # ys) = x # onCurrent f (y # ys)"
  by (simp add: onCurrent_def)

text \<open>A paragraph without a break only closes the section when it carries properties.\<close>

lemma splitParagraph_plain:
  assumes "fst (breakIndices options p) = - 1"
  shows "splitParagraph options result p done =
     (if isObj (sectionProps p)
      then onCurrent (\<lambda>c. c\<lparr>sectProps := sectionProps p\<rparr>) result @ [emptySection]
      else result, sectionProps p, done @ [p])"
  using assms by (simp add: splitParagraph_def Let_def clone_def split: option.splits)

lemma findIndexFrom_found:
  "findIndexFrom p i xs = r \<Longrightarrow> r \<noteq> - 1 \<Longrightarrow> 0 \<le> i
     \<Longrightarrow> i \<le> r \<and> r < i + int (length xs) \<and> p (xs ! nat (r - i))"
proof (induction xs arbitrary: i)
  case Nil
  then show ?case by simp
next
  case (Cons x xs)
  show ?case
  proof (cases "p x")
    case True
    with Cons.prems show ?thesis by simp
  next
    case False
    with Cons.prems have r: "findIndexFrom p (i + 1) xs = r" by simp
    from Cons.IH[OF r Cons.prems(2)] Cons.prems(3)
    have "i + 1 \<le> r" "r < i + 1 + int (length xs)" "p (xs ! nat (r - (i + 1)))" by auto
    moreover have "nat (r - i) = Suc (nat (r - (i + 1)))" using \<open>i + 1 \<le> r\<close> by simp
    ultimately show ?thesis by simp
  qed
qed

lemma findBreak_found:
  "findBreak options i cs = (P, R) \<Longrightarrow> P \<noteq> - 1 \<Longrightarrow> 0 \<le> i
     \<Longrightarrow> i \<le> P \<and> P < i + int (length cs)
        \<and> (\<exists>rcs. children (cs ! nat (P - i)) = Some rcs \<and> 0 \<le> R \<and> R < int (length rcs))"
proof (induction cs arbitrary: i)
  case Nil
  then show ?case by simp
next
  case (Cons c cs)
  let ?rb = "case children c of None \<Rightarrow> - 1
             | Some rcs \<Rightarrow> findIndexFrom (isPageBreakElement options) 0 rcs"
  show ?case
  proof (cases "?rb \<noteq> - 1")
    case True
    with Cons.prems have PR: "P = i" "R = ?rb" by (simp_all add: Let_def)
    from True obtain rcs where rcs: "children c = Some rcs" by (cases "children c") auto
    with True have "findIndexFrom (isPageBreakElement options) 0 rcs \<noteq> - 1" by simp
    from findIndexFrom_found[OF refl this] rcs PR show ?thesis by simp
  next
    case False
    with Cons.prems have r: "findBreak options (i + 1) cs = (P, R)" by (simp add: Let_def)
    from Cons.IH[OF r Cons.prems(2)] Cons.prems(3)
    obtain rcs where h: "i + 1 \<le> P" "P < i + 1 + int (length cs)"
      "children (cs ! nat (P - (i + 1))) = Some rcs" "0 \<le> R" "R < int (length rcs)" by auto
    moreover have "nat (P - i) = Suc (nat (P - (i + 1)))" using h(1) by simp
    ultimately show ?thesis by auto
  qed
qed

lemma breakIndices_found:
  "breakPages options \<Longrightarrow> children p = Some cs \<Longrightarrow> findBreak options 0 cs = (P, R)
     \<Longrightarrow> breakIndices options p = (if P > 0 then int (widen cs (nat P)) else P, R)"
  by (simp add: breakIndices_def)

lemma breakIndices_off: "\<not> breakPages options \<Longrightarrow> breakIndices options p = (- 1, - 1)"
  by (simp add: breakIndices_def)

lemma widen_2: "type (cs ! 1) \<noteq> BookmarkStart \<Longrightarrow> widen cs 2 = 2"
  by (simp add: numeral_2_eq_2)

text \<open>
  The passes after the loop, for two sections that the loop left without properties:
  both take the document's properties, and are pages 1 and 2 of one run.
\<close>

lemma post_two:
  "splitLoop options styleMap els =
      ([\<lparr>sectProps = Null, elements = e1\<rparr>, \<lparr>sectProps = Null, elements = e2\<rparr>], v, d)
    \<Longrightarrow> splitBySection options styleMap els (Obj L) = Inr ([sec L 1 e1, sec L 2 e2], d)"
  by (simp add: splitBySection_def clone_def addSectionInnerPageNums_def sec_def)

lemma ex_plain_no_break: "fst (breakIndices exOptions exPlain) = - 1"
  by (simp add: breakIndices_def ex_defs isPageBreakElement_def Let_def)

text \<open>
  Claim C6. Three paragraphs of which only the second carries section properties
  \<open>S1\<close>, with no page break and no page-break-before style, and document properties
  \<open>L\<close> of another identity: \<open>splitBySection\<close> returns the section \<open>[p1, p2]\<close> with
  properties \<open>S1\<close> and the section \<open>[p3]\<close> with properties \<open>L\<close>, each page 1 of its
  section, and leaves the input as it was.
\<close>

theorem splitBySection_three_paragraphs:
  assumes "type p1 = Paragraph" "type p2 = Paragraph" "type p3 = Paragraph"
    and "\<not> isObj (sectionProps p1)" "sectionProps p2 = Obj S1" "\<not> isObj (sectionProps p3)"
    and "\<not> pageBreakBeforeOf styleMap p1" "\<not> pageBreakBeforeOf styleMap p2"
      "\<not> pageBreakBeforeOf styleMap p3"
    and "fst (breakIndices options p1) = - 1" "fst (breakIndices options p2) = - 1"
      "fst (breakIndices options p3) = - 1"
    and "id_sect S1 \<noteq> id_sect L"
  shows "splitBySection options styleMap [p1, p2, p3] (Obj L) =
    Inr ([sec S1 1 [p1, p2], sec L 1 [p3]], [p1, p2, p3])"
proof -
  have loop: "splitLoop options styleMap [p1, p2, p3] =
     ([\<lparr>sectProps = Obj S1, elements = [p1, p2]\<rparr>, \<lparr>sectProps = Null, elements = [p3]\<rparr>],
       sectionProps p3, [p1, p2, p3])"
    using assms
    by (simp add: splitLoop_def splitStep_def splitParagraph_plain emptySection_def isObj_def)
  show ?thesis
    using assms(13)
    by (simp add: splitBySection_def loop clone_def addSectionInnerPageNums_def sec_def)
qed

theorem splitBySection_three_paragraphs_witness:
  "splitBySection exOptions None [exPlain, exSectionEnd, exPlain] (Obj exLast) =
    Inr ([sec exS1 1 [exPlain, exSectionEnd], sec exLast 1 [exPlain]],
         [exPlain, exSectionEnd, exPlain])"
proof -
  have t: "type exPlain = Paragraph" "type exSectionEnd = Paragraph"
    by (simp_all add: ex_defs)
  have s: "\<not> isObj (sectionProps exPlain)" "sectionProps exSectionEnd = Obj exS1"
    by (simp_all add: ex_defs isObj_def)
  have b: "\<not> pageBreakBeforeOf None exPlain" "\<not> pageBreakBeforeOf None exSectionEnd"
    by (simp_all add: pageBreakBeforeOf_def)
  have i: "fst (breakIndices exOptions exSectionEnd) = - 1"
    by (simp add: breakIndices_def ex_defs isPageBreakElement_def Let_def)
  have d: "id_sect exS1 \<noteq> id_sect exLast"
    by (simp add: ex_defs)
  show ?thesis
    by (rule splitBySection_three_paragraphs
        [OF t(1) t(2) t(1) s(1) s(2) s(1) b(1) b(2) b(1)
            ex_plain_no_break i ex_plain_no_break d])
qed

text \<open>
  Claim C7, as amended. With \<open>breakPages\<close>, two paragraphs without section properties or
  page-break-before style, the first without a page break:

  \<^item> when the first page break of the second paragraph is in its child 0 and the first
    paragraph has rendered content (\<open>isFirstRenderElement\<close> is false), the second
    paragraph moves whole into a new section;
  \<^item> when the first page break of the second paragraph is in its child 2 and child 1 is
    not a bookmark start, a new section is opened, and the paragraph is cut when
    something follows the break: if the break is not the last child of its run, the
    first section keeps children \<open>[0,2)\<close> and a copy of child 2 holding what precedes the
    break, and the fragment starts with child 2 cut to start at the break; if the break
    is the last child of its run and the paragraph has more than 3 children, the first
    section keeps exactly children \<open>[0,2)\<close> and the fragment holds children \<open>[2,end)\<close>; if
    the break ends the paragraph, the paragraph stays whole and the new section is empty.
\<close>

theorem splitBySection_manual_break:
  assumes par: "type p1 = Paragraph" "type p2 = Paragraph"
    and pbb: "\<not> pageBreakBeforeOf styleMap p1" "\<not> pageBreakBeforeOf styleMap p2"
    and sp: "\<not> isObj (sectionProps p1)" "\<not> isObj (sectionProps p2)"
    and p1: "fst (breakIndices options p1) = - 1"
    and bp: "breakPages options"
    and cs: "children p2 = Some cs"
  shows "(findBreak options 0 cs = (0, R) \<longrightarrow> \<not> isFirstRenderElement [p1, p2] \<longrightarrow>
           splitBySection options styleMap [p1, p2] (Obj L)
             = Inr ([sec L 1 [p1], sec L 2 [p2]], [p1, p2]))
       \<and> (findBreak options 0 cs = (2, R) \<longrightarrow> type (cs ! 1) \<noteq> BookmarkStart \<longrightarrow>
            children (cs ! 2) = Some rcs \<longrightarrow>
           splitBySection options styleMap [p1, p2] (Obj L)
             = Inr (if R < int (length rcs) - 1
                    then ([sec L 1 [p1, setChildren p2
                                          (take 2 cs @ [setChildren (cs ! 2) (take (nat R) rcs)])],
                           sec L 2 [setChildren p2
                                      (setChildren (cs ! 2) (drop (nat R) rcs) # drop 3 cs)]],
                          [p1, setChildren p2
                                 (take 2 cs @ [setChildren (cs ! 2) (take (nat R) rcs)])])
                    else if 3 < length cs
                    then ([sec L 1 [p1, setChildren p2 (take 2 cs)],
                           sec L 2 [setChildren p2 (drop 2 cs)]],
                          [p1, setChildren p2 (take 2 cs)])
                    else ([sec L 1 [p1, p2], sec L 2 []], [p1, p2])))"
proof -
  have first: "splitLoop options styleMap [p1] =
     ([\<lparr>sectProps = Null, elements = [p1]\<rparr>], sectionProps p1, [p1])"
    using par pbb sp p1
    by (simp add: splitLoop_def splitStep_def splitParagraph_plain emptySection_def)
  have step: "splitLoop options styleMap [p1, p2] =
     splitParagraph options [\<lparr>sectProps = Null, elements = [p1, p2]\<rparr>] p2 [p1]"
    using first par pbb by (simp add: splitLoop_def splitStep_def)
  show ?thesis
  proof (intro conjI impI)
    assume fb: "findBreak options 0 cs = (0, R)" and nf: "\<not> isFirstRenderElement [p1, p2]"
    have bi: "breakIndices options p2 = (0, R)"
      using breakIndices_found[OF bp cs fb] by simp
    have "splitLoop options styleMap [p1, p2] =
       ([\<lparr>sectProps = Null, elements = [p1]\<rparr>, \<lparr>sectProps = Null, elements = [p2]\<rparr>],
        sectionProps p2, [p1, p2])"
      using sp nf cs
      by (simp add: step splitParagraph_def bi clone_def)
    then show "splitBySection options styleMap [p1, p2] (Obj L)
               = Inr ([sec L 1 [p1], sec L 2 [p2]], [p1, p2])"
      by (rule post_two)
  next
    assume fb: "findBreak options 0 cs = (2, R)" and nb: "type (cs ! 1) \<noteq> BookmarkStart"
      and rcs: "children (cs ! 2) = Some rcs"
    have bi: "breakIndices options p2 = (2, R)"
      using breakIndices_found[OF bp cs fb] widen_2[OF nb] by simp
    from findBreak_found[OF fb] have len: "2 < int (length cs)" by simp
    show "splitBySection options styleMap [p1, p2] (Obj L)
               = Inr (if R < int (length rcs) - 1
                      then ([sec L 1 [p1, setChildren p2
                                            (take 2 cs @ [setChildren (cs ! 2) (take (nat R) rcs)])],
                             sec L 2 [setChildren p2
                                        (setChildren (cs ! 2) (drop (nat R) rcs) # drop 3 cs)]],
                            [p1, setChildren p2
                                   (take 2 cs @ [setChildren (cs ! 2) (take (nat R) rcs)])])
                      else if 3 < length cs
                      then ([sec L 1 [p1, setChildren p2 (take 2 cs)],
                             sec L 2 [setChildren p2 (drop 2 cs)]],
                            [p1, setChildren p2 (take 2 cs)])
                      else ([sec L 1 [p1, p2], sec L 2 []], [p1, p2]))"
    proof (cases "R < int (length rcs) - 1")
      case True
      have "splitLoop options styleMap [p1, p2] =
        ([\<lparr>sectProps = Null, elements = [p1, setChildren p2
                                            (take 2 cs @ [setChildren (cs ! 2) (take (nat R) rcs)])]\<rparr>,
          \<lparr>sectProps = Null, elements = [setChildren p2
                                        (setChildren (cs ! 2) (drop (nat R) rcs) # drop 3 cs)]\<rparr>],
         sectionProps p2, [p1, setChildren p2
                                   (take 2 cs @ [setChildren (cs ! 2) (take (nat R) rcs)])])"
        using sp cs len rcs True
        by (simp add: step splitParagraph_def bi clone_def writeSplit_def emptySection_def
            numeral_3_eq_3 Let_def)
      from post_two[OF this] True show ?thesis by simp
    next
      case False
      note nsplit = this
      show ?thesis
      proof (cases "3 < length cs")
        case True
        have "splitLoop options styleMap [p1, p2] =
          ([\<lparr>sectProps = Null, elements = [p1, setChildren p2 (take 2 cs)]\<rparr>,
            \<lparr>sectProps = Null, elements = [setChildren p2 (drop 2 cs)]\<rparr>],
           sectionProps p2, [p1, setChildren p2 (take 2 cs)])"
          using sp cs len rcs nsplit True
          by (simp add: step splitParagraph_def bi clone_def writeSplit_def emptySection_def
              Let_def)
        from post_two[OF this] nsplit True show ?thesis by simp
      next
        case False
        have "splitLoop options styleMap [p1, p2] =
          ([\<lparr>sectProps = Null, elements = [p1, p2]\<rparr>,
            \<lparr>sectProps = Null, elements = []\<rparr>],
           sectionProps p2, [p1, p2])"
          using sp cs len rcs nsplit False
          by (simp add: step splitParagraph_def bi clone_def writeSplit_def emptySection_def
              Let_def)
        from post_two[OF this] nsplit False show ?thesis by simp
      qed
    qed
  qed
qed

lemmas split_defs =
  splitBySection_def splitLoop_def splitStep_def splitParagraph_def breakIndices_def
  isPageBreakElement_def isFirstRenderElement_def pageBreakBeforeOf_def writeSplit_def
  emptySection_def isObj_def clone_def addSectionInnerPageNums_def setChildren_def sec_def
  inputAfter_def Let_def numeral_2_eq_2 numeral_3_eq_3

theorem splitBySection_manual_break_witness:
  "splitBySection exOptions None [exPlain, exBreakFirst] (Obj exLast)
     = Inr ([sec exLast 1 [exPlain], sec exLast 2 [exBreakFirst]], [exPlain, exBreakFirst])
   \<and> splitBySection exOptions None [exPlain, exBreakThird4] (Obj exLast)
     = Inr ([sec exLast 1 [exPlain, mkParagraph None Undefined
                                      [mkRun [mkText ''x''], mkRun [mkText ''y'']]],
             sec exLast 2 [mkParagraph None Undefined
                             [mkRun [mkBreak ''page''], mkRun [mkText ''z'']]]],
            [exPlain, mkParagraph None Undefined [mkRun [mkText ''x''], mkRun [mkText ''y'']]])"
proof -
  have t: "type exPlain = Paragraph" "type exBreakFirst = Paragraph"
    "type exBreakThird4 = Paragraph"
    by (simp_all add: ex_defs)
  have b: "\<not> pageBreakBeforeOf None exPlain" "\<not> pageBreakBeforeOf None exBreakFirst"
    "\<not> pageBreakBeforeOf None exBreakThird4"
    by (simp_all add: pageBreakBeforeOf_def)
  have s: "\<not> isObj (sectionProps exPlain)" "\<not> isObj (sectionProps exBreakFirst)"
    "\<not> isObj (sectionProps exBreakThird4)"
    by (simp_all add: ex_defs isObj_def)
  have bp: "breakPages exOptions" by (simp add: ex_defs)
  have c1: "children exBreakFirst = Some [mkRun [mkBreak ''page'', mkText ''b'']]"
    by (simp add: ex_defs)
  have f1: "findBreak exOptions 0 [mkRun [mkBreak ''page'', mkText ''b'']] = (0, 0)"
    by (simp add: ex_defs isPageBreakElement_def)
  have n1: "\<not> isFirstRenderElement [exPlain, exBreakFirst]"
    by (simp add: ex_defs isFirstRenderElement_def)
  let ?cs = "[mkRun [mkText ''x''], mkRun [mkText ''y''], mkRun [mkBreak ''page''],
              mkRun [mkText ''z'']]"
  have c2: "children exBreakThird4 = Some ?cs"
    by (simp add: ex_defs)
  have f2: "findBreak exOptions 0 ?cs = (2, 0)"
    by (simp add: ex_defs isPageBreakElement_def)
  have n2: "type (?cs ! 1) \<noteq> BookmarkStart" by (simp add: ex_defs)
  have r2: "children (?cs ! 2) = Some [mkBreak ''page'']" by (simp add: ex_defs)
  from splitBySection_manual_break[OF t(1) t(2) b(1) b(2) s(1) s(2) ex_plain_no_break bp c1,
      of 0 exLast] f1 n1
  have A: "splitBySection exOptions None [exPlain, exBreakFirst] (Obj exLast)
     = Inr ([sec exLast 1 [exPlain], sec exLast 2 [exBreakFirst]], [exPlain, exBreakFirst])"
    by blast
  from splitBySection_manual_break[OF t(1) t(3) b(1) b(3) s(1) s(3) ex_plain_no_break bp c2,
      of 0 exLast "[mkBreak ''page'']"] f2 n2 r2
  have B: "splitBySection exOptions None [exPlain, exBreakThird4] (Obj exLast)
     = Inr ([sec exLast 1 [exPlain, setChildren exBreakThird4 (take 2 ?cs)],
             sec exLast 2 [setChildren exBreakThird4 (drop 2 ?cs)]],
            [exPlain, setChildren exBreakThird4 (take 2 ?cs)])"
    by simp
  have e: "setChildren exBreakThird4 (take 2 ?cs)
             = mkParagraph None Undefined [mkRun [mkText ''x''], mkRun [mkText ''y'']]"
    "setChildren exBreakThird4 (drop 2 ?cs)
             = mkParagraph None Undefined [mkRun [mkBreak ''page''], mkRun [mkText ''z'']]"
    by (simp_all add: setChildren_def exBreakThird4_def mkParagraph_def numeral_2_eq_2)
  from A B show ?thesis unfolding e by simp
qed

text \<open>
  The claim as it was stated fails twice: behind an empty first paragraph the paragraph
  with the break in its child 0 stays where it is, in the only section; and a paragraph
  of 3 children whose child 2 is the break alone is not cut.
\<close>

theorem splitBySection_manual_break_counterexample:
  "splitBySection exOptions None [exEmpty, exBreakFirst] (Obj exLast)
     = Inr ([sec exLast 1 [exEmpty, exBreakFirst]], [exEmpty, exBreakFirst])
   \<and> splitBySection exOptions None [exPlain, exBreakThird3] (Obj exLast)
     = Inr ([sec exLast 1 [exPlain, exBreakThird3], sec exLast 2 []],
            [exPlain, exBreakThird3])"
  by (simp add: split_defs ex_defs)

text \<open>
  Claim C3. The code opens a new section for every paragraph whose style has
  \<open>pageBreakBefore\<close>, the first element of the document included: the loop leaves an
  empty first section, whose properties are a copy of the unassigned variable
  \<open>sectProps\<close>, and \<open>addSectionInnerPageNums\<close> then reads \<open>id\<close> of \<open>undefined\<close>.
\<close>

theorem pageBreakBefore_leading_empty_section:
  "map elements (fst (splitLoop exOptions (Some [''H'' \<mapsto> exHeadingStyle]) [exHeading]))
     = [[], [exHeading]]
   \<and> splitBySection exOptions (Some [''H'' \<mapsto> exHeadingStyle]) [exHeading] (Obj exLast)
     = Inl TypeError"
  by (simp add: split_defs ex_defs)

text \<open>
  Claim C8. After the step back over the bookmark start, \<open>breakRun\<close> is the bookmark
  start and not the run with the break; it has no children, so the paragraph is not
  cut: the bookmark start, the break and what follows stay in the section before, and
  the section after is empty.
\<close>

theorem bookmark_not_relocated:
  "splitBySection exOptions None [exPlain, exBookmark] (Obj exLast)
     = Inr ([sec exLast 1 [exPlain, exBookmark], sec exLast 2 []], [exPlain, exBookmark])"
  by (simp add: split_defs ex_defs)

subsection \<open>What the splitter writes to its input\<close>

lemma splitParagraph_done:
  "\<exists>x. snd (snd (splitParagraph options result p d)) = d @ [x]
       \<and> (fst (breakIndices options p) \<le> 0 \<longrightarrow> x = p)"
  by (auto simp: splitParagraph_def Let_def split: option.splits)

lemma splitStep_done:
  "\<exists>x. snd (snd (splitStep options styleMap st e)) = snd (snd st) @ [x]
       \<and> (type e \<noteq> Paragraph \<or> fst (breakIndices options e) \<le> 0 \<longrightarrow> x = e)"
proof (cases st)
  case (fields result v d)
  show ?thesis
  proof (cases "type e = Paragraph")
    case True
    with fields splitParagraph_done[of options _ e d] show ?thesis
      by (simp add: splitStep_def Let_def)
  next
    case False
    with fields show ?thesis by (simp add: splitStep_def Let_def)
  qed
qed

lemma inputAfter_snoc:
  "\<exists>x. inputAfter options styleMap (els @ [e]) = inputAfter options styleMap els @ [x]
       \<and> (type e \<noteq> Paragraph \<or> fst (breakIndices options e) \<le> 0 \<longrightarrow> x = e)"
  using splitStep_done[of options styleMap "splitLoop options styleMap els" e]
  by (simp add: inputAfter_def splitLoop_def)

lemma inputAfter_frame:
  "length (inputAfter options styleMap els) = length els
   \<and> (\<forall>i < length els.
         type (els ! i) \<noteq> Paragraph \<or> fst (breakIndices options (els ! i)) \<le> 0
         \<longrightarrow> inputAfter options styleMap els ! i = els ! i)"
proof (induction els rule: rev_induct)
  case Nil
  then show ?case by (simp add: inputAfter_def splitLoop_def)
next
  case (snoc e els)
  from inputAfter_snoc[of options styleMap els e] obtain x where
    x: "inputAfter options styleMap (els @ [e]) = inputAfter options styleMap els @ [x]"
       "type e \<noteq> Paragraph \<or> fst (breakIndices options e) \<le> 0 \<longrightarrow> x = e" by blast
  show ?case
  proof (intro conjI allI impI)
    show "length (inputAfter options styleMap (els @ [e])) = length (els @ [e])"
      using x snoc.IH by simp
  next
    fix i assume i: "i < length (els @ [e])"
      and c: "type ((els @ [e]) ! i) \<noteq> Paragraph
              \<or> fst (breakIndices options ((els @ [e]) ! i)) \<le> 0"
    show "inputAfter options styleMap (els @ [e]) ! i = (els @ [e]) ! i"
    proof (cases "i < length els")
      case True
      with c snoc.IH x(1) show ?thesis by (simp add: nth_append)
    next
      case False
      with i have "i = length els" by simp
      with c x snoc.IH show ?thesis by (simp add: nth_append)
    qed
  qed
qed

text \<open>
  Claim C9, as amended. The input sequence keeps its length, and \<open>splitBySection\<close> leaves
  unchanged every element that is not a paragraph cut at a manual page break: an element
  that is not a paragraph, and a paragraph whose \<open>pBreakIndex\<close> is not positive (no page
  break, a break in the first child, or page breaks not honoured). Without \<open>breakPages\<close>
  the whole input is unchanged. What a successful call returns beside the sections is
  this input.
\<close>

theorem splitBySection_frame:
  "length (inputAfter options styleMap els) = length els
   \<and> (\<forall>i < length els.
         type (els ! i) \<noteq> Paragraph \<or> fst (breakIndices options (els ! i)) \<le> 0
         \<longrightarrow> inputAfter options styleMap els ! i = els ! i)
   \<and> (\<not> breakPages options \<longrightarrow> inputAfter options styleMap els = els)
   \<and> (\<forall>r d. splitBySection options styleMap els lastSectionProps = Inr (r, d)
         \<longrightarrow> d = inputAfter options styleMap els)"
proof (intro conjI)
  show "\<not> breakPages options \<longrightarrow> inputAfter options styleMap els = els"
    using inputAfter_frame[of options styleMap els]
    by (auto simp: breakIndices_off intro: nth_equalityI)
  show "\<forall>r d. splitBySection options styleMap els lastSectionProps = Inr (r, d)
         \<longrightarrow> d = inputAfter options styleMap els"
    by (auto simp: splitBySection_def inputAfter_def Let_def split: prod.splits sum.splits)
qed (use inputAfter_frame[of options styleMap els] in simp_all)

theorem splitBySection_frame_witness:
  "inputAfter exOptions None [exPlain, exBreakThird4] ! 0 = exPlain
   \<and> inputAfter (exOptions\<lparr>breakPages := False\<rparr>) None [exPlain, exBreakThird4]
       = [exPlain, exBreakThird4]"
proof -
  have h: "(0::nat) < length [exPlain, exBreakThird4]" by simp
  have c: "type ([exPlain, exBreakThird4] ! 0) \<noteq> Paragraph
           \<or> fst (breakIndices exOptions ([exPlain, exBreakThird4] ! 0)) \<le> 0"
    using ex_plain_no_break by simp
  have off: "\<not> breakPages (exOptions\<lparr>breakPages := False\<rparr>)" by simp
  from splitBySection_frame[of exOptions None "[exPlain, exBreakThird4]" Undefined] h c
  have A: "inputAfter exOptions None [exPlain, exBreakThird4] ! 0
             = [exPlain, exBreakThird4] ! 0"
    by blast
  from splitBySection_frame[of "exOptions\<lparr>breakPages := False\<rparr>" None
      "[exPlain, exBreakThird4]" Undefined] off
  have B: "inputAfter (exOptions\<lparr>breakPages := False\<rparr>) None [exPlain, exBreakThird4]
       = [exPlain, exBreakThird4]"
    by blast
  from A B show ?thesis by simp
qed

text \<open>
  The claim as it was stated fails: the paragraph cut at child 2 is truncated in place,
  so the input sequence is not what it was.
\<close>

theorem splitBySection_mutates_input:
  "inputAfter exOptions None [exPlain, exBreakThird4]
     = [exPlain, mkParagraph None Undefined [mkRun [mkText ''x''], mkRun [mkText ''y'']]]
   \<and> inputAfter exOptions None [exPlain, exBreakThird4] \<noteq> [exPlain, exBreakThird4]"
  by (simp add: split_defs ex_defs)

lemmas style_defs =
  processStyles_def replaceAsciiTheme_def replaceAsciiThemeSub_def defaultOverrideOf_def
  applyDefault_def copyStyle_def copyStyleProperties_def clone_def finishResolve_def
  lookupStyle_def setStyle_def copyInto_def basedOnOf_def objectPrototypeKeys_def
  setProp_def
  processClassName_def declared_def declaredAfter_def Let_def
  exTheme_def mkStyle_def exDefault_def exShadow_def exAnon_def exParent_def exLeaf_def

lemma upt_2: "[0..<2] = [0, Suc 0]"
  by (simp add: upt_rec)

section \<open>Properties of style resolution\<close>

text \<open>
  A set of styles closed under "base of", none of them resolved: a call of
  \<open>resolveBaseStyle\<close> on one of them calls itself on the next before it writes
  anything, and never returns.
\<close>

lemma lookupStyle_own: "stylesMap st k = Some a \<Longrightarrow> lookupStyle st k = StyleAt a"
  by (simp add: lookupStyle_def)


lemma resolveBaseStyle_no_return:
  assumes closed: "\<And>a. a \<in> C \<Longrightarrow> \<exists>b \<in> C. stylesMap st (propKey (basedOn (heap st ! a))) = Some b
                       \<and> basedOnResolved (heap st ! b) \<noteq> Some True"
    and a: "a \<in> C"
  shows "resolveBaseStyle st (Some a) = None"
proof (cases "resolveBaseStyle st (Some a)")
  case None
  then show ?thesis .
next
  case (Some y)
  have "\<not> (st = st \<and> Some a \<in> Some ` C)"
  proof (rule resolveBaseStyle.raw_induct[where P = "\<lambda>s x y. \<not> (s = st \<and> x \<in> Some ` C)", OF _ Some])
    fix f :: "store \<Rightarrow> nat option \<Rightarrow> (error + store) option" and s x z
    assume IH: "\<And>s' x' z'. f s' x' = Some z' \<Longrightarrow> \<not> (s' = st \<and> x' \<in> Some ` C)"
    assume body: "(case lookupStyle s (propKey (basedOnOf s x)) of
        Absent \<Rightarrow> Some (Inr s)
      | Other \<Rightarrow> Option.bind (f s None) (\<lambda>r. Some (Inl TypeError))
      | StyleAt b \<Rightarrow>
          if basedOnResolved (heap s ! b) \<noteq> Some True then
            Option.bind (f s (Some b)) (\<lambda>r.
              case r of
                Inl e \<Rightarrow> Some (Inl e)
              | Inr st' \<Rightarrow>
                  (case lookupStyle st' (propKey (basedOnOf st' x)) of
                     StyleAt b' \<Rightarrow> Some (copyInto st' x b')
                   | _ \<Rightarrow> Some (Inl TypeError)))
          else Some (copyInto s x b)) = Some z"
    show "\<not> (s = st \<and> x \<in> Some ` C)"
    proof
      assume h: "s = st \<and> x \<in> Some ` C"
      then obtain a' where x: "x = Some a'" "a' \<in> C" by auto
      then obtain b where b: "b \<in> C" "stylesMap st (propKey (basedOn (heap st ! a'))) = Some b"
        "basedOnResolved (heap st ! b) \<noteq> Some True" using closed by blast
      from b(2) have "lookupStyle st (propKey (basedOnOf st x)) = StyleAt b"
        by (simp add: x basedOnOf_def lookupStyle_own)
      with body h b(3) obtain r where "f st (Some b) = Some r"
        by (auto simp: bind_eq_Some_conv)
      with IH b(1) show False by blast
    qed
  qed
  with a show ?thesis by simp
qed

text \<open>
  Claim C1, as amended. \<open>resolveBaseStyle\<close> does not detect a cycle: when the base of
  \<open>A\<close> is \<open>B\<close> and the base of \<open>B\<close> is \<open>A\<close>, both in the map and neither resolved (as
  the first loop of \<open>processStyles\<close> leaves them), the call on either style recurses
  without bound and does not return, so neither style is resolved.
\<close>

theorem resolveBaseStyle_cycle_never_returns:
  assumes "stylesMap st (propKey (basedOn (heap st ! a))) = Some b"
    and "stylesMap st (propKey (basedOn (heap st ! b))) = Some a"
    and "basedOnResolved (heap st ! a) \<noteq> Some True"
    and "basedOnResolved (heap st ! b) \<noteq> Some True"
  shows "resolveBaseStyle st (Some a) = None \<and> resolveBaseStyle st (Some b) = None"
proof -
  have "\<And>x. x \<in> {a, b} \<Longrightarrow> \<exists>y \<in> {a, b}. stylesMap st (propKey (basedOn (heap st ! x))) = Some y
                       \<and> basedOnResolved (heap st ! y) \<noteq> Some True"
    using assms by auto
  from resolveBaseStyle_no_return[of "{a, b}" st, OF this] show ?thesis by simp
qed

theorem resolveBaseStyle_cycle_never_returns_witness:
  "resolveBaseStyle exCycleStore (Some 0) = None
   \<and> resolveBaseStyle exCycleStore (Some (Suc 0)) = None"
proof -
  have 1: "stylesMap exCycleStore (propKey (basedOn (heap exCycleStore ! 0))) = Some (Suc 0)"
    by (simp add: exCycleStore_def mkStyle_def)
  have 2: "stylesMap exCycleStore (propKey (basedOn (heap exCycleStore ! Suc 0))) = Some 0"
    by (simp add: exCycleStore_def mkStyle_def)
  have 3: "basedOnResolved (heap exCycleStore ! 0) \<noteq> Some True"
    by (simp add: exCycleStore_def mkStyle_def)
  have 4: "basedOnResolved (heap exCycleStore ! Suc 0) \<noteq> Some True"
    by (simp add: exCycleStore_def mkStyle_def)
  show ?thesis by (rule resolveBaseStyle_cycle_never_returns[OF 1 2 3 4])
qed

text \<open>
  The claim as it was stated fails: on the sheet of \<open>A\<close> based on \<open>B\<close> and \<open>B\<close> based on
  \<open>A\<close>, \<open>processStyles\<close> does not return.
\<close>

theorem processStyles_cycle_never_returns:
  "processStyles exTheme ''docx'' exCycle = None"
proof -
  have i: "indexStyles exTheme [0..<length exCycle]
             \<lparr>heap = exCycle, stylesMap = Map.empty, prototype = None\<rparr>
             = Inr exCycleStore"
    by (simp add: exCycle_def exCycleStore_def upt_2 exTheme_def replaceAsciiTheme_def mkStyle_def
        setStyle_def)
  have "resolveBaseStyle exCycleStore (Some 0) = None"
    by (rule resolveBaseStyle_no_return[where C="{0, Suc 0}"])
       (auto simp: exCycleStore_def mkStyle_def)
  then have "resolveStyles [0..<length exCycle] exCycleStore = None"
    by (simp add: exCycle_def exCycleStore_def upt_2 mkStyle_def)
  with i show ?thesis by (simp add: processStyles_def Let_def)
qed

subsection \<open>Without a theme part\<close>

lemma replaceAsciiTheme_None [simp]: "replaceAsciiTheme None addDefault style = Inl TypeError"
  by (simp add: replaceAsciiTheme_def)

lemma indexStyles_None:
  "indexStyles None as st =
     (if \<exists>a \<in> set as. isObj (id_style (heap st ! a)) then Inl TypeError else Inr st)"
  by (induction as) (auto simp: isObj_def split: nullable.splits)

text \<open>
  With no own property in the map and \<open>Object.prototype\<close> as its prototype, a base is
  either missing, and the call returns at once, or a built-in, and the call throws.
\<close>

lemma resolveBaseStyle_empty_map:
  assumes "stylesMap st = Map.empty" and "prototype st = None"
  shows "resolveBaseStyle st style = Some (Inr st) \<or> resolveBaseStyle st style = Some (Inl TypeError)"
proof -
  have n: "resolveBaseStyle st None = Some (Inr st)"
    using assms
    by (subst resolveBaseStyle.simps)
       (simp add: lookupStyle_def basedOnOf_def objectPrototypeKeys_def)
  show ?thesis
    using assms n
    by (subst (1 2) resolveBaseStyle.simps) (simp add: lookupStyle_def)
qed

lemma resolveStyles_empty_map:
  assumes "stylesMap st = Map.empty" and "prototype st = None"
  shows "resolveStyles as st = Some (Inr st) \<or> resolveStyles as st = Some (Inl TypeError)"
proof (induction as)
  case Nil
  then show ?case by simp
next
  case (Cons a as)
  from resolveBaseStyle_empty_map[OF assms, of "Some a"] Cons show ?case by auto
qed

lemma nameStyles_None: "as \<noteq> [] \<Longrightarrow> nameStyles None rootClass as st = Inl TypeError"
  by (cases as) simp_all

text \<open>
  Claim C10. Without a theme part \<open>replaceAsciiTheme\<close> throws on every style, and so
  does \<open>processStyles\<close> on every sheet, and the part of \<open>render\<close> that calls it whenever
  the document has a styles part: at the first style with an id, or in the third loop
  at the first style (on a sheet without styles the call throws on the absent default
  style instead).
\<close>

theorem processStyles_without_theme:
  "replaceAsciiTheme None addDefault style = Inl TypeError
   \<and> processStyles None rootClass sts = Some (Inl TypeError)
   \<and> render_styleMap None (Some sts) rootClass = Some (Inl TypeError)"
proof -
  let ?st0 = "\<lparr>heap = sts, stylesMap = Map.empty, prototype = None\<rparr>"
  have p: "processStyles None rootClass sts = Some (Inl TypeError)"
  proof (cases "\<exists>a \<in> set [0..<length sts]. isObj (id_style (heap ?st0 ! a))")
    case True
    then have "indexStyles None [0..<length sts] ?st0 = Inl TypeError"
      by (simp only: indexStyles_None if_True)
    then show ?thesis by (simp add: processStyles_def Let_def)
  next
    case False
    then have i: "indexStyles None [0..<length sts] ?st0 = Inr ?st0"
      by (simp only: indexStyles_None if_False)
    have r: "resolveStyles [0..<length sts] ?st0 = Some (Inr ?st0)
             \<or> resolveStyles [0..<length sts] ?st0 = Some (Inl TypeError)"
      by (rule resolveStyles_empty_map) simp_all
    show ?thesis
    proof (cases "sts = []")
      case True
      then show ?thesis
        by (simp add: processStyles_def Let_def defaultOverrideOf_def)
    next
      case False
      then have "[0..<length sts] \<noteq> []" by simp
      from nameStyles_None[OF this] i r show ?thesis
        by (auto simp: processStyles_def Let_def)
    qed
  qed
  then show ?thesis by (simp add: render_styleMap_def)
qed

subsection \<open>The merge of blocks\<close>

lemma mergeProps_map_of:
  "map_of (mergeProps keys input out ov) k =
     (if k \<in> set keys
      then (case map_of input k of
              Some v \<Rightarrow> if ov \<or> map_of out k = None then Some v else map_of out k
            | None \<Rightarrow> map_of out k)
      else map_of out k)"
proof (induction keys arbitrary: out)
  case Nil
  then show ?case by simp
next
  case (Cons key keys)
  show ?case
    by (auto simp: Cons.IH update_conv' split: option.splits)
qed


lemma mergedValues_map_of:
  "map_of (mergedValues input output ov) k =
     (case map_of input k of
        Some v \<Rightarrow> if ov \<or> map_of output k = None then Some v else map_of output k
      | None \<Rightarrow> map_of output k)"
proof -
  have "k \<in> set (map fst input) \<longleftrightarrow> map_of input k \<noteq> None"
    by (simp add: map_of_eq_None_iff)
  then show ?thesis
    by (auto simp: mergedValues_def mergeProps_map_of split: option.splits)
qed


lemma mergedValues_safe:
  "safeCss input \<Longrightarrow> safeCss output \<Longrightarrow> safeCss (mergedValues input output ov)"
  by (simp add: safeCss_def mergedValues_map_of)

lemma declared_Nil [simp]: "declared [] t k = None"
  by (simp add: declared_def)

lemma declared_Cons:
  "declared (b # bs) t k = (if target b = t then map_of (values_sub b) k else declared bs t k)"
  by (simp add: declared_def)

lemma mergeBlock_declared:
  "declared (mergeBlock b ov ts) t k =
     (if t = target b
      then (case map_of (values_sub b) k of
              Some v \<Rightarrow> if ov \<or> declared ts t k = None then Some v else declared ts t k
            | None \<Rightarrow> declared ts t k)
      else declared ts t k)"
proof (induction ts)
  case Nil
  then show ?case by (simp add: declared_Cons split: option.splits)
next
  case (Cons x ts)
  show ?case
  proof (cases "target x = target b")
    case True
    then show ?thesis
      by (auto simp: declared_Cons mergedValues_map_of split: option.splits)
  next
    case False
    then have "mergeBlock b ov (x # ts) = x # mergeBlock b ov ts" by simp
    with False Cons.IH show ?thesis
      by (auto simp: declared_Cons split: option.splits)
  qed
qed




lemma declared_None_if_absent: "t \<notin> target ` set bs \<Longrightarrow> declared bs t k = None"
  by (induction bs) (auto simp: declared_Cons)

lemma mergeBlocks_declared:
  "distinct (map target bs) \<Longrightarrow>
   declared (mergeBlocks bs ov ts) t k =
     (if ov
      then (case declared bs t k of Some v \<Rightarrow> Some v | None \<Rightarrow> declared ts t k)
      else (case declared ts t k of Some v \<Rightarrow> Some v | None \<Rightarrow> declared bs t k))"
proof (induction bs arbitrary: ts)
  case Nil
  then show ?case by (simp split: option.splits)
next
  case (Cons b bs)
  then have d: "distinct (map target bs)" and nb: "target b \<notin> target ` set bs" by auto
  have step: "declared (mergeBlocks (b # bs) ov ts) t k =
     (if ov
      then (case declared bs t k of Some v \<Rightarrow> Some v
            | None \<Rightarrow> declared (mergeBlock b ov ts) t k)
      else (case declared (mergeBlock b ov ts) t k of Some v \<Rightarrow> Some v
            | None \<Rightarrow> declared bs t k))"
    using Cons.IH[OF d, of "mergeBlock b ov ts"] by simp
  show ?case
  proof (cases "t = target b")
    case True
    with nb have n: "declared bs t k = None" by (simp add: declared_None_if_absent)
    show ?thesis
      unfolding step mergeBlock_declared
      using True n by (auto simp: declared_Cons split: option.splits)
  next
    case False
    show ?thesis
      unfolding step mergeBlock_declared
      using False by (auto simp: declared_Cons split: option.splits)
  qed
qed

lemma mergeBlock_safe:
  "safeCss (values_sub b) \<Longrightarrow> list_all (\<lambda>b. safeCss (values_sub b)) ts
    \<Longrightarrow> list_all (\<lambda>b. safeCss (values_sub b)) (mergeBlock b ov ts)"
  by (induction ts) (simp_all add: mergedValues_safe)



text \<open>
  On maps without the two property names no call throws, and the functions of the
  renderer yield the merge. When existing entries are overridden, the maps of the target
  are not asked.
\<close>

lemma copyProps_safe:
  assumes "map_of input ''hasOwnProperty'' = None" and "map_of input ''__proto__'' = None"
  shows "ov \<or> map_of out ''hasOwnProperty'' = None
    \<Longrightarrow> copyProps keys input out ov = Inr (mergeProps keys input out ov)"
proof (induction keys arbitrary: out)
  case Nil
  then show ?case by simp
next
  case (Cons key keys)
  show ?case
  proof (cases "map_of input key")
    case None
    with assms Cons show ?thesis by simp
  next
    case (Some v)
    with assms have k: "key \<noteq> ''hasOwnProperty''" "key \<noteq> ''__proto__''" by auto
    then have u: "ov \<or> map_of (AList.update key v out) ''hasOwnProperty'' = None"
      using Cons.prems by (auto simp: update_conv')
    from Cons.IH[OF u] Cons.IH[OF Cons.prems] Some assms k Cons.prems show ?thesis
      by (auto simp: setProp_def)
  qed
qed

lemma copyStyleProperties_safe:
  "safeCss input \<Longrightarrow> ov \<or> map_of output ''hasOwnProperty'' = None
    \<Longrightarrow> copyStyleProperties (Some input) (Some output) None ov
          = Inr (Some (mergedValues input output ov))"
  by (simp add: copyStyleProperties_def mergedValues_def safeCss_def copyProps_safe)

lemma copyBlock_safe:
  "safeCss (values_sub b) \<Longrightarrow> ov \<or> list_all (\<lambda>b. safeCss (values_sub b)) ts
    \<Longrightarrow> copyBlock b ov ts = Inr (mergeBlock b ov ts)"
proof (induction ts)
  case Nil
  then show ?case by (simp add: clone_def)
next
  case (Cons t ts)
  then have "ov \<or> map_of (values_sub t) ''hasOwnProperty'' = None"
    by (auto simp: safeCss_def)
  from copyStyleProperties_safe[OF Cons.prems(1) this] Cons show ?case
    by auto
qed

lemma copyBlocks_safe:
  "list_all (\<lambda>b. safeCss (values_sub b)) bs \<Longrightarrow> ov \<or> list_all (\<lambda>b. safeCss (values_sub b)) ts
    \<Longrightarrow> copyBlocks bs ov ts = Inr (mergeBlocks bs ov ts)"
proof (induction bs arbitrary: ts)
  case Nil
  then show ?case by simp
next
  case (Cons b bs)
  then have b: "safeCss (values_sub b)" and bs: "list_all (\<lambda>b. safeCss (values_sub b)) bs"
    by simp_all
  have "ov \<or> list_all (\<lambda>b. safeCss (values_sub b)) (mergeBlock b ov ts)"
    using Cons.prems(2) mergeBlock_safe[OF b] by auto
  from Cons.IH[OF bs this] copyBlock_safe[OF b Cons.prems(2)] show ?case by simp
qed

lemma copyStyle_safe:
  "safeStyle base \<Longrightarrow> ov \<or> safeStyle tgt
    \<Longrightarrow> copyStyle base tgt ov = Inr (mergeStyle base tgt ov)"
  by (simp add: copyStyle_def mergeStyle_def safeStyle_def copyBlocks_safe)

text \<open>The blocks of the aggregated default style have distinct target kinds.\<close>

lemma copyBlock_targets:
  "copyBlock b ov ts = Inr ts'
    \<Longrightarrow> set (map target ts') = insert (target b) (set (map target ts))
        \<and> (distinct (map target ts) \<longrightarrow> distinct (map target ts'))"
proof (induction ts arbitrary: ts')
  case Nil
  then show ?case by (auto simp: clone_def)
next
  case (Cons x ts)
  show ?case
  proof (cases "target x = target b")
    case True
    with Cons.prems show ?thesis by (auto split: sum.splits)
  next
    case False
    with Cons.prems obtain us where u: "copyBlock b ov ts = Inr us" "ts' = x # us"
      by (auto split: sum.splits)
    from Cons.IH[OF u(1)] u(2) False show ?thesis by auto
  qed
qed

lemma copyBlocks_distinct:
  "copyBlocks bs ov ts = Inr ts' \<Longrightarrow> distinct (map target ts) \<Longrightarrow> distinct (map target ts')"
proof (induction bs arbitrary: ts)
  case Nil
  then show ?case by simp
next
  case (Cons b bs)
  from Cons.prems(1) obtain us where u: "copyBlock b ov ts = Inr us" "copyBlocks bs ov us = Inr ts'"
    by (auto split: sum.splits)
  from copyBlock_targets[OF u(1)] Cons.prems(2) have "distinct (map target us)" by simp
  from Cons.IH[OF u(2) this] show ?case .
qed

lemma mergeDefaults_distinct:
  "mergeDefaults ds d = Inr d' \<Longrightarrow> distinct (map target (styles d))
    \<Longrightarrow> distinct (map target (styles d'))"
proof (induction ds arbitrary: d)
  case Nil
  then show ?case by simp
next
  case (Cons x ds)
  from Cons.prems(1) obtain d1 where c: "copyStyle x d False = Inr d1" "mergeDefaults ds d1 = Inr d'"
    by (auto split: sum.splits)
  from c(1) obtain bs where "copyBlocks (styles x) False (styles d) = Inr bs" "d1 = d\<lparr>styles := bs\<rparr>"
    by (cases "copyBlocks (styles x) False (styles d)") (auto simp: copyStyle_def)
  with copyBlocks_distinct Cons.prems(2) have "distinct (map target (styles d1))" by auto
  from Cons.IH[OF c(2) this] show ?case .
qed

lemma defaultOverrideOf_distinct:
  "defaultOverrideOf sts = Inr d \<Longrightarrow> distinct (map target (styles d))"
proof -
  assume a: "defaultOverrideOf sts = Inr d"
  then obtain x xs where "filter isDefault sts = x # xs"
    and "mergeDefaults (x # xs) ((clone x)\<lparr>styles := []\<rparr>) = Inr d"
    by (auto simp: defaultOverrideOf_def split: list.splits)
  then show ?thesis
    using mergeDefaults_distinct[of "x # xs" "(clone x)\<lparr>styles := []\<rparr>" d] by simp
qed

text \<open>
  Claim C2, as amended. The aggregated default style is applied with
  \<open>overideExistingEntries = true\<close>: on a style whose id is null, every property the
  aggregated default declares for a target kind takes the default's value, also when
  the style had set it; the properties the default does not declare keep their values.
  This is said of an aggregated default with no property named \<open>hasOwnProperty\<close> or
  \<open>__proto__\<close>: the first makes the merge throw, the second is not copied.
\<close>

theorem applyDefault_overrides:
  assumes "defaultOverrideOf sts = Inr defaultOverride" and "id_style style = Null"
    and "safeStyle defaultOverride"
  shows "\<exists>style'. applyDefault defaultOverride style = Inr style'
           \<and> declared (styles style') t k =
               (case declared (styles defaultOverride) t k of
                  Some v \<Rightarrow> Some v
                | None \<Rightarrow> declared (styles style) t k)"
  using defaultOverrideOf_distinct[OF assms(1)] assms(2)
    copyStyle_safe[OF assms(3), of True style]
  by (simp add: applyDefault_def mergeStyle_def mergeBlocks_declared)

theorem applyDefault_overrides_witness:
  "\<exists>style'. applyDefault (exDefault\<lparr>styles := styles exDefault\<rparr>) exAnon = Inr style'
     \<and> declared (styles style') ''span'' ''color''
         = (case declared (styles (exDefault\<lparr>styles := styles exDefault\<rparr>)) ''span'' ''color'' of
              Some v \<Rightarrow> Some v
            | None \<Rightarrow> declared (styles exAnon) ''span'' ''color'')"
proof -
  have d: "defaultOverrideOf [exDefault, exAnon] = Inr (exDefault\<lparr>styles := styles exDefault\<rparr>)"
    by (simp add: defaultOverrideOf_def exDefault_def exAnon_def mkStyle_def clone_def
        copyStyle_def)
  have n: "id_style exAnon = Null"
    by (simp add: exAnon_def mkStyle_def)
  have s: "safeStyle (exDefault\<lparr>styles := styles exDefault\<rparr>)"
    by (simp add: exDefault_def mkStyle_def safeStyle_def safeCss_def)
  show ?thesis by (rule applyDefault_overrides[OF d n s])
qed

text \<open>
  The claim as it was stated fails: the style with id null sets \<open>color\<close> to red, the
  default style sets it to blue, and after \<open>processStyles\<close> the style declares blue.
  And when the default style declares a property named \<open>hasOwnProperty\<close>, the
  application throws and no style is left to speak of.
\<close>

theorem applyDefault_overrides_counterexample:
  "declared (styles exAnon) ''span'' ''color'' = Some ''red''
   \<and> declaredAfter (processStyles exTheme ''docx'' [exDefault, exAnon]) 1 ''span'' ''color''
       = Some (Inr (Some ''blue''))
   \<and> processStyles exTheme ''docx'' [exShadow, exAnon] = Some (Inl TypeError)"
  by (simp add: style_defs upt_2 resolveBaseStyle.simps)

subsection \<open>Resolution along a chain\<close>







lemma firstDeclared_single [simp]: "firstDeclared [s] t k = declared (styles s) t k"
  by (simp split: option.splits)


lemma themedSub_target [simp]:
  "target (replaceAsciiThemeSub mi ma ad b) = target b"
  by (simp add: replaceAsciiThemeSub_def Let_def)








lemma themed_fields [simp]:
  "id_style (themed fonts ad s) = id_style s"
  "basedOn (themed fonts ad s) = basedOn s"
  "isDefault (themed fonts ad s) = isDefault s"
  "basedOnResolved (themed fonts ad s) = basedOnResolved s"
  by (simp_all add: themed_def)












lemma indexed_fields [simp]:
  "id_style (indexed fonts s) = id_style s"
  "basedOn (indexed fonts s) = basedOn s"
  "isDefault (indexed fonts s) = isDefault s"
  "basedOnResolved (indexed fonts s) = Some (\<not> truthy (basedOn s))"
  by (simp_all add: indexed_def)











section \<open>Properties of the numbering compiler\<close>

lemma digitChar_in: "n < 10 \<Longrightarrow> digitChar n \<in> set ''0123456789''"
  unfolding digitChar_def by (rule nth_mem) simp

lemma digitChar_not_minus: "n < 10 \<Longrightarrow> digitChar n \<noteq> CHR ''-''"
  using digitChar_in[of n] by auto

lemma digitChar_inj: "n < 10 \<Longrightarrow> m < 10 \<Longrightarrow> digitChar n = digitChar m \<Longrightarrow> n = m"
proof -
  have d: "distinct ''0123456789''" by simp
  show "n < 10 \<Longrightarrow> m < 10 \<Longrightarrow> digitChar n = digitChar m \<Longrightarrow> n = m"
    unfolding digitChar_def using d by (simp add: nth_eq_iff_index_eq)
qed

lemma showNat_digits: "c \<in> set (showNat n) \<Longrightarrow> c \<noteq> CHR ''-''"
proof (induction n rule: showNat.induct)
  case (1 n)
  show ?case
  proof (cases "n < 10")
    case True
    with 1(2) show ?thesis by (simp add: showNat.simps[of n] digitChar_not_minus)
  next
    case False
    with 1(2) have "c \<in> set (showNat (n div 10)) \<or> c = digitChar (n mod 10)"
      by (auto simp: showNat.simps[of n])
    then show ?thesis
      using 1(1)[OF False] digitChar_not_minus[of "n mod 10"] by auto
  qed
qed

lemma showNat_nonempty: "showNat n \<noteq> []"
  by (subst showNat.simps) simp

lemma showNat_inj: "showNat n = showNat m \<Longrightarrow> n = m"
proof (induction n arbitrary: m rule: showNat.induct)
  case (1 n)
  show ?case
  proof (cases "n < 10")
    case True
    note n = this
    show ?thesis
    proof (cases "m < 10")
      case True
      with n 1(2) show ?thesis
        by (simp add: showNat.simps[of n] showNat.simps[of m] digitChar_inj)
    next
      case False
      with n 1(2) showNat_nonempty[of "m div 10"] show ?thesis
        by (simp add: showNat.simps[of n] showNat.simps[of m])
    qed
  next
    case False
    note n = this
    show ?thesis
    proof (cases "m < 10")
      case True
      with n 1(2) showNat_nonempty[of "n div 10"] show ?thesis
        by (simp add: showNat.simps[of n] showNat.simps[of m])
    next
      case False
      with n 1(2) have e: "showNat (n div 10) = showNat (m div 10)"
        "digitChar (n mod 10) = digitChar (m mod 10)"
        by (simp_all add: showNat.simps[of n] showNat.simps[of m])
      from 1(1)[OF n e(1)] have "n div 10 = m div 10" .
      moreover from e(2) have "n mod 10 = m mod 10" by (simp add: digitChar_inj)
      ultimately show ?thesis by (metis div_mult_mod_eq)
    qed
  qed
qed

lemma split_at_last:
  assumes "xs @ c # ys = xs' @ c # ys'" and "c \<notin> set ys" and "c \<notin> set ys'"
  shows "xs = xs' \<and> ys = ys'"
proof -
  from assms(1) have "rev ys @ c # rev xs = rev ys' @ c # rev xs'"
    by (metis rev.simps(2) rev_append append.assoc append_Cons append_Nil)
  moreover have "takeWhile (\<lambda>x. x \<noteq> c) (rev ys @ c # rev xs) = rev ys"
    using assms(2) by (auto simp: takeWhile_tail)
  moreover have "takeWhile (\<lambda>x. x \<noteq> c) (rev ys' @ c # rev xs') = rev ys'"
    using assms(3) by (auto simp: takeWhile_tail)
  ultimately have "rev ys = rev ys'" by simp
  then have "ys = ys'" by simp
  with assms(1) show ?thesis by simp
qed

lemma showDouble_safe: "0 \<le> l \<Longrightarrow> l < 2 ^ 53 \<Longrightarrow> showDouble (nat l) = showNat (nat l)"
  by (simp add: showDouble_def nat_less_iff)

lemma numberingCounter_inj:
  assumes "0 \<le> l1" "l1 < 2 ^ 53" "0 \<le> l2" "l2 < 2 ^ 53"
    and "numberingCounter className id1 (Num l1) = numberingCounter className id2 (Num l2)"
  shows "id1 = id2 \<and> l1 = l2"
proof -
  from assms have "id1 @ CHR ''-'' # showNat (nat l1) = id2 @ CHR ''-'' # showNat (nat l2)"
    by (simp add: numberingCounter_def showDouble_safe)
  from split_at_last[OF this] showNat_digits
  have "id1 = id2" "showNat (nat l1) = showNat (nat l2)" by blast+
  with showNat_inj assms(1,3) show ?thesis by (metis int_nat_eq)
qed

lemma styleToString_fst:
  "fst (styleToString options dict selectors vs cssText)
     = fst (styleToString options dict' selectors vs cssText)"
  by (simp add: styleToString_def)

lemma renderNumberingStep_text:
  "fst (renderNumberingStep options className (acc, rc, dict) num)
     = fst (renderNumberingStep options className (acc, rc, dict') num)
   \<and> fst (snd (renderNumberingStep options className (acc, rc, dict) num))
     = fst (snd (renderNumberingStep options className (acc, rc, dict') num))"
proof (cases "noStyleBlock options")
  case True
  then show ?thesis
    by (cases "bullet num")
       (simp_all add: renderNumberingStep_def Let_def styleToString_def)
next
  case False
  then show ?thesis
    by (cases "bullet num")
       (simp_all add: renderNumberingStep_def Let_def styleToString_def)
qed

lemma renderNumbering_loop_text:
  "fst (foldl (renderNumberingStep options className) (acc, rc, dict) nums)
     = fst (foldl (renderNumberingStep options className) (acc, rc, dict') nums)
   \<and> fst (snd (foldl (renderNumberingStep options className) (acc, rc, dict) nums))
     = fst (snd (foldl (renderNumberingStep options className) (acc, rc, dict') nums))"
proof (induction nums arbitrary: acc rc dict dict')
  case Nil
  then show ?case by simp
next
  case (Cons num nums)
  obtain t1 r1 d1 where s1: "renderNumberingStep options className (acc, rc, dict) num = (t1, r1, d1)"
    by (cases "renderNumberingStep options className (acc, rc, dict) num") auto
  obtain t2 r2 d2 where s2: "renderNumberingStep options className (acc, rc, dict') num = (t2, r2, d2)"
    by (cases "renderNumberingStep options className (acc, rc, dict') num") auto
  from renderNumberingStep_text[of options className acc rc dict num dict'] s1 s2
  have "t1 = t2" "r1 = r2" by simp_all
  with Cons.IH[of t1 r1 d1 d2] s1 s2 show ?case by simp
qed

lemma renderNumbering_text:
  "fst (renderNumbering options className dict nums)
     = fst (renderNumbering options className dict' nums)"
proof -
  obtain t1 r1 d1 where s1: "foldl (renderNumberingStep options className) ([], [], dict) nums = (t1, r1, d1)"
    by (cases "foldl (renderNumberingStep options className) ([], [], dict) nums") auto
  obtain t2 r2 d2 where s2: "foldl (renderNumberingStep options className) ([], [], dict') nums = (t2, r2, d2)"
    by (cases "foldl (renderNumberingStep options className) ([], [], dict') nums") auto
  from renderNumbering_loop_text[of options className "[]" "[]" dict nums dict'] s1 s2
  have "t1 = t2" "r1 = r2" by simp_all
  then show ?thesis
    by (simp add: renderNumbering_def s1 s2 Let_def styleToString_def)
qed

subsection \<open>The dictionary after a second run\<close>

lemma update_swap_present:
  "k \<noteq> k' \<Longrightarrow> k \<in> fst ` set al
    \<Longrightarrow> AList.update k v (AList.update k' v' al) = AList.update k' v' (AList.update k v al)"
  by (induction al) auto

lemma update_same: "map_of al k = Some v \<Longrightarrow> AList.update k v al = al"
  by (induction al) (auto split: if_splits)

lemma map_of_present: "map_of al k = Some v \<Longrightarrow> k \<in> fst ` set al"
  by (metis domI dom_map_of_conv_image_fst)

lemma inPlace_self: "inPlace w (applyWrite d w)"
  by (cases w)
     (auto simp: initSelector_def setRule_def update_conv' dom_update split: option.splits)

lemma inPlace_mono: "inPlace u d \<Longrightarrow> inPlace u (applyWrite d w)"
  by (cases u; cases w)
     (auto simp: initSelector_def setRule_def update_conv' dom_update split: option.splits if_splits)

lemma init_noop: "inPlace (InitSelector s) y \<Longrightarrow> applyWrite y (InitSelector s) = y"
  by (auto simp: initSelector_def)

lemma set_absent_noop:
  "map_of y s = None \<Longrightarrow> s \<in> set objectPrototypeKeys \<Longrightarrow> applyWrite y (SetRule s k v) = y"
  by (simp add: setRule_def)

lemma absent_kept:
  "map_of x s = None \<Longrightarrow> s \<in> set objectPrototypeKeys \<Longrightarrow> map_of (applyWrite x w) s = None"
  by (cases w) (auto simp: initSelector_def setRule_def update_conv')

lemma commute_or_absorb:
  assumes "inPlace u x"
  shows "applyWrite (applyWrite x w) u = applyWrite x u
         \<or> applyWrite (applyWrite x w) u = applyWrite (applyWrite x u) w"
proof (cases u)
  case (InitSelector s)
  with assms inPlace_mono[OF assms, of w] init_noop show ?thesis by simp
next
  case u: (SetRule s k v)
  show ?thesis
  proof (cases "map_of x s")
    case None
    with assms u have b: "s \<in> set objectPrototypeKeys" by simp
    from absent_kept[OF None b, of w] set_absent_noop[OF _ b] None u show ?thesis by simp
  next
    case (Some e)
    with assms u have ke: "k \<in> fst ` set e" by simp
    from Some have sx: "s \<in> fst ` set x" by (rule map_of_present)
    have xu: "applyWrite x u = AList.update s (AList.update k v e) x"
      using u Some by (simp add: setRule_def)
    show ?thesis
    proof (cases w)
      case w: (InitSelector s')
      show ?thesis
      proof (cases "map_of x s' = None \<and> s' \<notin> set objectPrototypeKeys")
        case False
        then have "applyWrite x w = x" "applyWrite (applyWrite x u) w = applyWrite x u"
          using w xu by (auto simp: initSelector_def update_conv')
        then show ?thesis by simp
      next
        case True
        with Some have ne: "s \<noteq> s'" by auto
        have "applyWrite (applyWrite x w) u
                = AList.update s (AList.update k v e) (AList.update s' [] x)"
          using True w u Some ne by (simp add: initSelector_def setRule_def update_conv')
        also have "\<dots> = AList.update s' [] (AList.update s (AList.update k v e) x)"
          by (rule update_swap_present[OF ne sx])
        also have "\<dots> = applyWrite (applyWrite x u) w"
          using True w xu ne by (simp add: initSelector_def update_conv')
        finally show ?thesis by simp
      qed
    next
      case w: (SetRule s' k' v')
      show ?thesis
      proof (cases "s' = s")
        case True
        have xw: "applyWrite x w = AList.update s (AList.update k' v' e) x"
          using w True Some by (simp add: setRule_def)
        have l: "applyWrite (applyWrite x w) u
                   = AList.update s (AList.update k v (AList.update k' v' e)) x"
          using u xw by (simp add: setRule_def update_conv')
        show ?thesis
        proof (cases "k' = k")
          case True
          with l xu show ?thesis by simp
        next
          case False
          then have "AList.update k v (AList.update k' v' e)
                       = AList.update k' v' (AList.update k v e)"
            using update_swap_present[of k k' e v v'] ke by simp
          moreover have "applyWrite (applyWrite x u) w
                   = AList.update s (AList.update k' v' (AList.update k v e)) x"
            using w True xu by (simp add: setRule_def update_conv')
          ultimately show ?thesis using l by simp
        qed
      next
        case ne: False
        show ?thesis
        proof (cases "map_of x s' = None \<and> s' \<in> set objectPrototypeKeys")
          case True
          then have "applyWrite x w = x" "applyWrite (applyWrite x u) w = applyWrite x u"
            using w xu ne by (auto simp: setRule_def update_conv')
          then show ?thesis by simp
        next
          case False
          let ?e' = "AList.update k' v' (case map_of x s' of None \<Rightarrow> [] | Some e \<Rightarrow> e)"
          have xw: "applyWrite x w = AList.update s' ?e' x"
            using w False by (auto simp: setRule_def)
          have "applyWrite (applyWrite x w) u
                  = AList.update s (AList.update k v e) (AList.update s' ?e' x)"
            using u xw Some ne by (simp add: setRule_def update_conv')
          also have "\<dots> = AList.update s' ?e' (AList.update s (AList.update k v e) x)"
            using update_swap_present[of s s' x] ne sx by simp
          also have "\<dots> = applyWrite (applyWrite x u) w"
            using w False xu ne by (auto simp: setRule_def update_conv')
          finally show ?thesis by simp
        qed
      qed
    qed
  qed
qed

lemma inPlace_foldl: "inPlace u d \<Longrightarrow> inPlace u (foldl applyWrite d ws)"
  by (induction ws arbitrary: d) (simp_all add: inPlace_mono)

lemma inPlace_after: "u \<in> set ws \<Longrightarrow> inPlace u (foldl applyWrite d ws)"
proof (induction ws arbitrary: d)
  case Nil
  then show ?case by simp
next
  case (Cons w ws)
  show ?case
  proof (cases "u = w")
    case True
    then show ?thesis using inPlace_foldl[OF inPlace_self[of w d], of ws] by simp
  next
    case False
    with Cons show ?thesis by simp
  qed
qed

lemma absorb_last:
  "\<forall>u \<in> set ws. inPlace u x
    \<Longrightarrow> applyWrite (foldl applyWrite (applyWrite x w) ws) w = applyWrite (foldl applyWrite x ws) w"
proof (induction ws arbitrary: x)
  case Nil
  show ?case
    by (cases w) (auto simp: initSelector_def setRule_def update_conv')
next
  case (Cons u us)
  then have iu: "inPlace u x" and ius: "\<forall>u' \<in> set us. inPlace u' (applyWrite x u)"
    by (simp_all add: inPlace_mono)
  from commute_or_absorb[OF iu, of w] show ?case
  proof
    assume "applyWrite (applyWrite x w) u = applyWrite x u"
    then show ?thesis by simp
  next
    assume "applyWrite (applyWrite x w) u = applyWrite (applyWrite x u) w"
    with Cons.IH[OF ius] show ?thesis by simp
  qed
qed

lemma foldl_applyWrite_idem:
  "foldl applyWrite (foldl applyWrite d ws) ws = foldl applyWrite d ws"
proof (induction ws rule: rev_induct)
  case Nil
  then show ?case by simp
next
  case (snoc w ws)
  let ?D = "foldl applyWrite d ws"
  have "\<forall>u \<in> set ws. inPlace u ?D" by (simp add: inPlace_after)
  from absorb_last[OF this, of w] snoc show ?case by simp
qed

lemma writes_idem: "writes f \<Longrightarrow> f (f d) = f d"
  by (auto simp: writes_def foldl_applyWrite_idem)

lemma writes_id: "writes (\<lambda>d. d)"
  unfolding writes_def by (rule exI[of _ "[]"]) simp

lemma writes_comp: "writes f \<Longrightarrow> writes g \<Longrightarrow> writes (\<lambda>d. g (f d))"
proof -
  assume "writes f" "writes g"
  then obtain wf wg where "\<forall>d. f d = foldl applyWrite d wf" "\<forall>d. g d = foldl applyWrite d wg"
    by (auto simp: writes_def)
  then have "\<forall>d. g (f d) = foldl applyWrite d (wf @ wg)" by simp
  then show ?thesis unfolding writes_def by blast
qed

lemma writes_one: "writes (\<lambda>d. applyWrite d w)"
  unfolding writes_def by (rule exI[of _ "[w]"]) simp

lemma writes_setRules: "writes (setRules split vs)"
proof (induction vs)
  case Nil
  have "setRules split [] = (\<lambda>d. d)" by (rule ext) simp
  then show ?case by (simp add: writes_id)
next
  case (Cons kv vs)
  obtain key v where kv: "kv = (key, v)" by (cases kv)
  let ?e = "\<lparr>cssRuleCamel = camelCase key, newVal = v\<rparr>"
  let ?h = "\<lambda>d. if key = ''__proto__'' then d else setRule split key ?e d"
  have h: "writes ?h"
  proof (cases "key = ''__proto__''")
    case True
    then show ?thesis by (simp add: writes_id)
  next
    case False
    have "(\<lambda>d. applyWrite d (SetRule split key ?e)) = ?h"
      by (rule ext) (simp add: False)
    with writes_one[of "SetRule split key ?e"] show ?thesis by simp
  qed
  have "setRules split (kv # vs) = (\<lambda>d. setRules split vs (?h d))"
    by (rule ext) (simp add: kv)
  with writes_comp[OF h Cons] show ?case by simp
qed

lemma writes_setSelectors: "writes (setSelectors splits vs)"
proof (induction splits)
  case Nil
  have "setSelectors [] vs = (\<lambda>d. d)" by (rule ext) simp
  then show ?case by (simp add: writes_id)
next
  case (Cons split splits)
  have "(\<lambda>d. applyWrite d (InitSelector split)) = initSelector split"
    by (rule ext) simp
  with writes_one[of "InitSelector split"] have i: "writes (initSelector split)" by simp
  have "setSelectors (split # splits) vs
          = (\<lambda>d. setSelectors splits vs (setRules split vs (initSelector split d)))"
    by (rule ext) simp
  with writes_comp[OF writes_comp[OF i writes_setRules] Cons] show ?case by simp
qed

lemma writes_styleToString:
  assumes "writes f"
  shows "writes (\<lambda>d. snd (styleToString options (f d) sel vs ct))"
proof (cases "noStyleBlock options")
  case True
  then have "(\<lambda>d. snd (styleToString options (f d) sel vs ct))
               = (\<lambda>d. setSelectors (splitSelectors [] sel) vs (f d))"
    by (simp add: styleToString_def)
  with writes_comp[OF assms writes_setSelectors] show ?thesis by simp
next
  case False
  then have "(\<lambda>d. snd (styleToString options (f d) sel vs ct)) = f"
    by (simp add: styleToString_def)
  with assms show ?thesis by simp
qed

lemma writes_step:
  "writes (\<lambda>d. snd (snd (renderNumberingStep options className (t, rc, d) num)))"
proof (cases "bullet num")
  case (Some b)
  then show ?thesis
    by (simp add: renderNumberingStep_def Let_def)
       (intro writes_styleToString writes_id)
next
  case None
  note nb = this
  show ?thesis
  proof (cases "levelText num")
    case None
    with nb show ?thesis
      by (simp add: renderNumberingStep_def Let_def)
         (intro writes_styleToString writes_id)
  next
    case (Some lt)
    show ?thesis
    proof (cases "lt = []")
      case True
      with nb Some show ?thesis
        by (simp add: renderNumberingStep_def Let_def)
           (intro writes_styleToString writes_id)
    next
      case False
      show ?thesis
      proof (cases "isPositive (level num)")
        case p: True
        with nb Some False show ?thesis
          by (simp add: renderNumberingStep_def Let_def)
             (intro writes_styleToString writes_id)
      next
        case p: False
        with nb Some False show ?thesis
          by (simp add: renderNumberingStep_def Let_def)
             (intro writes_styleToString writes_id)
      qed
    qed
  qed
qed

lemma writes_loop:
  "writes (\<lambda>d. snd (snd (foldl (renderNumberingStep options className) (t, rc, d) nums)))"
proof (induction nums arbitrary: t rc)
  case Nil
  show ?case by (simp add: writes_id)
next
  case (Cons num nums)
  let ?T = "fst (renderNumberingStep options className (t, rc, []) num)"
  let ?R = "fst (snd (renderNumberingStep options className (t, rc, []) num))"
  let ?D = "\<lambda>d. snd (snd (renderNumberingStep options className (t, rc, d) num))"
  have s: "renderNumberingStep options className (t, rc, d) num = (?T, ?R, ?D d)" for d
    using renderNumberingStep_text[of options className t rc d num "[]"]
    by (simp add: prod_eq_iff)
  have "(\<lambda>d. snd (snd (foldl (renderNumberingStep options className) (t, rc, d) (num # nums))))
          = (\<lambda>d. snd (snd (foldl (renderNumberingStep options className) (?T, ?R, ?D d) nums)))"
    by (rule ext) (simp add: s[symmetric])
  with writes_comp[OF writes_step Cons[of ?T ?R]] show ?case by simp
qed

lemma writes_renderNumbering: "writes (\<lambda>d. snd (renderNumbering options className d nums))"
proof -
  define T where "T = fst (foldl (renderNumberingStep options className) ([], [], []) nums)"
  define R where "R = fst (snd (foldl (renderNumberingStep options className) ([], [], []) nums))"
  define D where "D = (\<lambda>d. snd (snd (foldl (renderNumberingStep options className) ([], [], d) nums)))"
  have s: "foldl (renderNumberingStep options className) ([], [], d) nums = (T, R, D d)" for d
    using renderNumbering_loop_text[of options className "[]" "[]" d nums "[]"]
    by (simp add: prod_eq_iff T_def R_def D_def)
  have D: "writes D" unfolding D_def by (rule writes_loop)
  show ?thesis
  proof (cases "R \<noteq> []")
    case True
    have "(\<lambda>d. snd (renderNumbering options className d nums))
            = (\<lambda>d. snd (styleToString options (D d) (''.'' @ className @ ''-wrapper'')
                            [(''counter-reset'', join '' '' R)] None))"
      by (rule ext) (use True in \<open>simp add: renderNumbering_def Let_def s\<close>)
    with writes_styleToString[OF D] show ?thesis by simp
  next
    case False
    have "(\<lambda>d. snd (renderNumbering options className d nums)) = D"
      by (rule ext) (use False in \<open>simp add: renderNumbering_def Let_def s\<close>)
    with D show ?thesis by simp
  qed
qed

lemma renderNumbering_idem:
  "renderNumbering options className (snd (renderNumbering options className dict nums)) nums
     = renderNumbering options className dict nums"
proof (rule prod_eqI)
  show "fst (renderNumbering options className (snd (renderNumbering options className dict nums)) nums)
          = fst (renderNumbering options className dict nums)"
    by (rule renderNumbering_text)
  show "snd (renderNumbering options className (snd (renderNumbering options className dict nums)) nums)
          = snd (renderNumbering options className dict nums)"
    using writes_idem[OF writes_renderNumbering[of options className nums], of dict] by simp
qed

text \<open>
  Claim C5, as amended. With one class name, the counter names of two pairs of a numbering
  id and a level are equal only when the pairs are, for levels that are integers from 0
  below \<open>2 ^ 53\<close> (the integers a double holds exactly). And \<open>renderNumbering\<close> on the
  same input, run again in the state the first run left, returns the same text and
  leaves \<open>noCssDict\<close> as the first run left it. With \<open>noStyleBlock\<close>, where the rules go
  to \<open>noCssDict\<close>, this is said of a class name and of numbering ids without a comma: a
  selector is then one piece and cannot be \<open>__proto__\<close>, under which the rules would be
  written to \<open>Object.prototype\<close>, which the dictionary does not hold.
\<close>

theorem numberingCounter_unique_and_stable:
  assumes "noStyleBlock options
            \<longrightarrow> CHR '','' \<notin> set className \<and> (\<forall>num \<in> set nums. CHR '','' \<notin> set (id_num num))"
  shows "(0 \<le> l1 \<and> l1 < 2 ^ 53 \<and> 0 \<le> l2 \<and> l2 < 2 ^ 53
          \<and> numberingCounter className id1 (Num l1) = numberingCounter className id2 (Num l2)
         \<longrightarrow> id1 = id2 \<and> l1 = l2)
     \<and> renderNumbering options className
          (snd (renderNumbering options className dict nums)) nums
        = renderNumbering options className dict nums"
  using numberingCounter_inj[of l1 l2 className id1 id2]
    renderNumbering_idem[of options className dict nums]
  by blast

theorem numberingCounter_unique_and_stable_witness:
  "numberingCounter ''docx'' ''3'' (Num 0) \<noteq> numberingCounter ''docx'' ''3'' (Num 1)
   \<and> renderNumbering exNoBlock ''docx''
        (snd (renderNumbering exNoBlock ''docx'' [] [exNum (Num 1) (Some ''%1.%2'')]))
        [exNum (Num 1) (Some ''%1.%2'')]
      = renderNumbering exNoBlock ''docx'' [] [exNum (Num 1) (Some ''%1.%2'')]"
proof -
  have h: "noStyleBlock exNoBlock
            \<longrightarrow> CHR '','' \<notin> set ''docx''
                \<and> (\<forall>num \<in> set [exNum (Num 1) (Some ''%1.%2'')]. CHR '','' \<notin> set (id_num num))"
    by (simp add: exNum_def)
  from numberingCounter_unique_and_stable[OF h, of 0 1 "''3''" "''3''" "[]"]
  show ?thesis by simp
qed

text \<open>
  The claim as it was stated fails: below zero the sign of the level is the separator,
  so the pairs \<open>(3, -1)\<close> and \<open>(3-, 1)\<close> get one counter name; and
  \<open>levelTextToContent\<close> asks for the level \<open>-1\<close> at the placeholder \<open>%0\<close>, so the two
  numberings get the same content.
\<close>

theorem numberingCounter_collides_below_zero:
  "(''3'', Num (- 1)) \<noteq> (''3-'', Num 1)
   \<and> numberingCounter ''docx'' ''3'' (Num (- 1)) = numberingCounter ''docx'' ''3-'' (Num 1)
   \<and> levelTextToContent ''docx'' ''%0'' None ''3'' ''decimal''
       = levelTextToContent ''docx'' ''%2'' None ''3-'' ''decimal''"
  by (simp add: numberingCounter_def levelTextToContent_def parseInt_def toDouble_def
      roundNat_def showDouble_def showNat.simps digitChar_def isDigit_def)

end
